theory Spec2Isabelle
  imports Complex_Main
begin

section \<open>The One Max evolution loop of main.py\<close>

text \<open>
  The program builds a population of bit lists, evaluates each by counting its ones and
  then repeats select, clone, crossover, mutation, re-evaluation and replacement until the
  best fitness reaches 100 or 1000 generations have run. The operators come from the DEAP
  library through the toolbox; the library is not part of the repository, so the loop is
  modelled over an arbitrary toolbox and an arbitrary state of the random generator.
  Python floats are idealised as reals.
\<close>

subsection \<open>Errors\<close>

text \<open>The exceptions the statements of \<^verbatim>\<open>main\<close> can raise.\<close>

datatype py_error = ValueError | ZeroDivisionError | IndexError

subsection \<open>Individuals and their fitness\<close>

text \<open>
  \<^verbatim>\<open>creator.create("Individual", list, fitness=creator.FitnessMax)\<close>: an individual is
  a list of integers that carries a fitness object.

  Modelled from the spec: the class \<^verbatim>\<open>Fitness\<close> of \<^verbatim>\<open>deap.base\<close> is missing from the
  sources. Its \<^verbatim>\<open>values\<close> are a tuple of numbers (here one number, weight 1.0), cleared
  by \<^verbatim>\<open>del fitness.values\<close>; \<^verbatim>\<open>fitness.valid\<close> holds iff values are present. The
  field \<open>fitness\<close> is that tuple, empty when the values are deleted or were never set.
\<close>

record individual =
  alleles :: "int list"
  fitness :: "real list"

definition valid :: "individual \<Rightarrow> bool" where
  "valid ind = (fitness ind \<noteq> [])"

text \<open>\<^verbatim>\<open>ind.fitness.values = fit\<close>\<close>

definition set_values :: "individual \<Rightarrow> int list \<Rightarrow> individual" where
  "set_values ind fit = ind\<lparr>fitness := map real_of_int fit\<rparr>"

text \<open>\<^verbatim>\<open>del ind.fitness.values\<close>\<close>

definition del_values :: "individual \<Rightarrow> individual" where
  "del_values ind = ind\<lparr>fitness := []\<rparr>"

text \<open>\<^verbatim>\<open>ind.fitness.values[0]\<close>: indexing the empty tuple raises IndexError.\<close>

definition values0 :: "individual \<Rightarrow> py_error + real" where
  "values0 ind = (case fitness ind of [] \<Rightarrow> Inl IndexError | v # _ \<Rightarrow> Inr v)"

text \<open>
  \<^verbatim>\<open>def evalOneMax(individual): return sum(individual),\<close>
  The result is a tuple of one element.
\<close>

definition evalOneMax :: "individual \<Rightarrow> int list" where
  "evalOneMax ind = [sum_list (alleles ind)]"

subsection \<open>Statistics of a generation\<close>

text \<open>\<^verbatim>\<open>max(fits)\<close> and \<^verbatim>\<open>min(fits)\<close>: ValueError on the empty list.\<close>

fun py_max :: "real list \<Rightarrow> py_error + real" where
  "py_max [] = Inl ValueError"
| "py_max (x # xs) = Inr (fold max xs x)"

fun py_min :: "real list \<Rightarrow> py_error + real" where
  "py_min [] = Inl ValueError"
| "py_min (x # xs) = Inr (fold min xs x)"

record stats =
  s_min :: real
  s_max :: real
  s_mean :: real
  s_std :: real

text \<open>
  Lines 178 to 186 of main.py, with \<open>n\<close> for \<^verbatim>\<open>length = len(pop)\<close>:
  \<^verbatim>\<open>
  mean = sum(fits) / length
  sum2 = sum(x*x for x in fits)
  std = abs(sum2 / length - mean**2)**0.5
  print("  Min %s" % min(fits)) ... print("  Std %s" % std)
  \<close>
  The division raises ZeroDivisionError when the population is empty.
\<close>

definition report :: "nat \<Rightarrow> real list \<Rightarrow> py_error + stats" where
  "report n fits =
     (if n = 0 then Inl ZeroDivisionError
      else
        let mean = sum_list fits / real n;
            sum2 = sum_list (map (\<lambda>x. x * x) fits);
            std = \<bar>sum2 / real n - mean ^ 2\<bar> powr (1 / 2)
        in case py_min fits of
             Inl e \<Rightarrow> Inl e
           | Inr lo \<Rightarrow>
               (case py_max fits of
                  Inl e \<Rightarrow> Inl e
                | Inr hi \<Rightarrow> Inr \<lparr>s_min = lo, s_max = hi, s_mean = mean, s_std = std\<rparr>))"

subsection \<open>The toolbox and the random generator\<close>

text \<open>
  The toolbox (lines 60 to 89) binds names to library operators. They are fields of a
  record, so every property below holds for whatever operators are registered. The
  operators and \<^verbatim>\<open>random.random()\<close> read and advance the state of the one global random
  generator, of type \<open>'r\<close>; each takes that state and returns the new one.
  \<^verbatim>\<open>mate\<close> and \<^verbatim>\<open>mutate\<close> change their arguments in place: they return the changed
  individuals.
\<close>

record 'r toolbox =
  population :: "nat \<Rightarrow> 'r \<Rightarrow> individual list \<times> 'r"
  select :: "individual list \<Rightarrow> nat \<Rightarrow> 'r \<Rightarrow> individual list \<times> 'r"
  mate :: "individual \<Rightarrow> individual \<Rightarrow> 'r \<Rightarrow> (individual \<times> individual) \<times> 'r"
  mutate :: "individual \<Rightarrow> 'r \<Rightarrow> individual \<times> 'r"
  random_random :: "'r \<Rightarrow> real \<times> 'r"

text \<open>
  \<^verbatim>\<open>toolbox.clone\<close> is a deep copy. Line 133 clones every selected individual, one call
  each, so the offspring are pairwise distinct objects, distinct from the population's:
  from there on an object is named by its position in \<^verbatim>\<open>offspring\<close>, and a copy of a
  value is the value. The store-level model of the copy is \<open>clone_ref\<close> below.
\<close>

definition clone :: "individual \<Rightarrow> individual" where
  "clone ind = ind"

subsection \<open>Crossover and mutation passes\<close>

text \<open>\<^verbatim>\<open>xs[::2]\<close>; \<^verbatim>\<open>xs[1::2]\<close> is the same slice of \<open>drop 1 xs\<close>.\<close>

fun every_other :: "'a list \<Rightarrow> 'a list" where
  "every_other [] = []"
| "every_other [x] = [x]"
| "every_other (x # y # xs) = x # every_other xs"

text \<open>
  \<^verbatim>\<open>zip(offspring[::2], offspring[1::2])\<close> for \<open>n\<close> offspring, as pairs of positions.
\<close>

definition child_pairs :: "nat \<Rightarrow> (nat \<times> nat) list" where
  "child_pairs n = zip (every_other [0..<n]) (every_other (drop 1 [0..<n]))"

text \<open>
  Lines 145 to 149. The state is the offspring, the random generator and a log of the
  positions handed to \<^verbatim>\<open>toolbox.mate\<close> (the log is not in the program: it records the
  calls).
  \<^verbatim>\<open>
  for child1, child2 in zip(offspring[::2], offspring[1::2]):
      if random.random() < CXPB:
          toolbox.mate(child1, child2)
          del child1.fitness.values
          del child2.fitness.values
  \<close>
\<close>

fun crossover_pass ::
  "'r toolbox \<Rightarrow> real \<Rightarrow> (nat \<times> nat) list \<Rightarrow> individual list \<times> 'r \<times> nat list
     \<Rightarrow> individual list \<times> 'r \<times> nat list" where
  "crossover_pass tb cxpb [] st = st"
| "crossover_pass tb cxpb ((i, j) # ps) (offspring, rng, mated) =
     (let (u, rng1) = random_random tb rng in
      if u < cxpb then
        (let ((child1, child2), rng2) = mate tb (offspring ! i) (offspring ! j) rng1;
             offspring1 = offspring[i := del_values child1];
             offspring2 = offspring1[j := del_values child2]
         in crossover_pass tb cxpb ps (offspring2, rng2, mated @ [i, j]))
      else crossover_pass tb cxpb ps (offspring, rng1, mated))"

text \<open>
  Lines 151 to 154, with a log of the positions handed to \<^verbatim>\<open>toolbox.mutate\<close>.
  \<^verbatim>\<open>
  for mutant in offspring:
      if random.random() < MUTPB:
          toolbox.mutate(mutant)
          del mutant.fitness.values
  \<close>
\<close>

fun mutation_pass ::
  "'r toolbox \<Rightarrow> real \<Rightarrow> nat list \<Rightarrow> individual list \<times> 'r \<times> nat list
     \<Rightarrow> individual list \<times> 'r \<times> nat list" where
  "mutation_pass tb mutpb [] st = st"
| "mutation_pass tb mutpb (i # rest) (offspring, rng, mutated) =
     (let (u, rng1) = random_random tb rng in
      if u < mutpb then
        (let (mutant, rng2) = mutate tb (offspring ! i) rng1
         in mutation_pass tb mutpb rest (offspring[i := del_values mutant], rng2, mutated @ [i]))
      else mutation_pass tb mutpb rest (offspring, rng1, mutated))"

subsection \<open>Re-evaluation\<close>

text \<open>
  Line 164: \<^verbatim>\<open>invalid_ind = [ind for ind in offspring if not ind.fitness.valid]\<close>, as
  positions in \<^verbatim>\<open>offspring\<close>.
\<close>

definition invalid_ind :: "individual list \<Rightarrow> nat list" where
  "invalid_ind offspring = filter (\<lambda>i. \<not> valid (offspring ! i)) [0..<length offspring]"

text \<open>
  Lines 165 to 167. \<^verbatim>\<open>map\<close> is lazy, so each call of \<^verbatim>\<open>toolbox.evaluate\<close> happens when the
  loop reaches its individual; the second component logs the position of every individual
  the evaluator is called on.
  \<^verbatim>\<open>
  fitnesses = map(toolbox.evaluate, invalid_ind)
  for ind, fit in zip(invalid_ind, fitnesses):
      ind.fitness.values = fit
  \<close>
\<close>

fun assign_fitnesses ::
  "nat list \<Rightarrow> individual list \<times> nat list \<Rightarrow> individual list \<times> nat list" where
  "assign_fitnesses [] st = st"
| "assign_fitnesses (i # rest) (offspring, calls) =
     (let fit = evalOneMax (offspring ! i)
      in assign_fitnesses rest (offspring[i := set_values (offspring ! i) fit], calls @ [i]))"

subsection \<open>One generation and the loop\<close>

text \<open>\<^verbatim>\<open>[ind.fitness.values[0] for ind in pop]\<close>\<close>

fun fits_of :: "individual list \<Rightarrow> py_error + real list" where
  "fits_of [] = Inr []"
| "fits_of (ind # pop) =
     (case values0 ind of
        Inl e \<Rightarrow> Inl e
      | Inr v \<Rightarrow> (case fits_of pop of Inl e \<Rightarrow> Inl e | Inr vs \<Rightarrow> Inr (v # vs)))"

record 'r gen_result =
  g_pop :: "individual list"
  g_fits :: "real list"
  g_stats :: stats
  g_rng :: 'r

text \<open>The body of the loop after the counter is incremented: lines 131 to 186.\<close>

definition generation ::
  "'r toolbox \<Rightarrow> real \<Rightarrow> real \<Rightarrow> individual list \<Rightarrow> 'r \<Rightarrow> py_error + 'r gen_result" where
  "generation tb cxpb mutpb pop rng =
     (let (selected, rng1) = select tb pop (length pop) rng;
          offspring = map clone selected;
          (offspring1, rng2, mated) =
             crossover_pass tb cxpb (child_pairs (length offspring)) (offspring, rng1, []);
          (offspring2, rng3, mutated) =
             mutation_pass tb mutpb [0..<length offspring1] (offspring1, rng2, []);
          (offspring3, calls) = assign_fitnesses (invalid_ind offspring2) (offspring2, [])
      in case fits_of offspring3 of
           Inl e \<Rightarrow> Inl e
         | Inr fits \<Rightarrow>
             (case report (length offspring3) fits of
                Inl e \<Rightarrow> Inl e
              | Inr st \<Rightarrow> Inr \<lparr>g_pop = offspring3, g_fits = fits, g_stats = st, g_rng = rng3\<rparr>))"

record 'r run =
  final_pop :: "individual list"
  final_fits :: "real list"
  final_g :: nat
  final_rng :: 'r
  reports :: "(nat \<times> individual list \<times> stats) list"

text \<open>
  Line 124: \<^verbatim>\<open>while max(fits) < 100 and g < 1000:\<close>. The last argument collects, for every
  generation, its number, its population and the statistics printed for it.
\<close>

function evolve ::
  "'r toolbox \<Rightarrow> real \<Rightarrow> real \<Rightarrow> individual list \<Rightarrow> real list \<Rightarrow> nat \<Rightarrow> 'r
     \<Rightarrow> (nat \<times> individual list \<times> stats) list \<Rightarrow> py_error + 'r run" where
  "evolve tb cxpb mutpb pop fits g rng out =
     (case py_max fits of
        Inl e \<Rightarrow> Inl e
      | Inr best \<Rightarrow>
          if best < 100 \<and> g < 1000 then
            (case generation tb cxpb mutpb pop rng of
               Inl e \<Rightarrow> Inl e
             | Inr r \<Rightarrow>
                 evolve tb cxpb mutpb (g_pop r) (g_fits r) (g + 1) (g_rng r)
                   (out @ [(g + 1, g_pop r, g_stats r)]))
          else Inr \<lparr>final_pop = pop, final_fits = fits, final_g = g, final_rng = rng,
                    reports = out\<rparr>)"
  by pat_completeness auto
termination
  by (relation "measure (\<lambda>(tb, cxpb, mutpb, pop, fits, g, rng, out). 1000 - g)") auto

text \<open>Line 110: \<^verbatim>\<open>CXPB, MUTPB = 0.5, 0.2\<close>\<close>

definition CXPB :: real where
  "CXPB = 0.5"

definition MUTPB :: real where
  "MUTPB = 0.2"

text \<open>
  \<^verbatim>\<open>main\<close>, lines 97 to 124: the population of 300, its evaluation, then the loop from
  generation 0.
\<close>

definition main :: "'r toolbox \<Rightarrow> 'r \<Rightarrow> py_error + 'r run" where
  "main tb rng0 =
     (let (pop0, rng1) = population tb 300 rng0;
          fitnesses = map evalOneMax pop0;
          pop = map2 set_values pop0 fitnesses
      in case fits_of pop of
           Inl e \<Rightarrow> Inl e
         | Inr fits \<Rightarrow> evolve tb CXPB MUTPB pop fits 0 rng1 [])"

subsection \<open>Two-point crossover\<close>

text \<open>
  Modelled from the spec: \<^verbatim>\<open>tools.cxTwoPoint\<close> of the DEAP library, registered as
  \<^verbatim>\<open>toolbox.mate\<close> on line 87, is missing from the sources. The spec: "pick two indices
  0 \<le> i < j \<le> N uniformly, swap the allele sub-range [i,j) between the two genomes"; the
  caller invalidates the fitness afterwards. \<open>cx_points N\<close> lists the outcomes of the draw,
  \<open>cxTwoPoint\<close> takes the drawn pair.
\<close>

definition cx_points :: "nat \<Rightarrow> (nat \<times> nat) list" where
  "cx_points N = concat (map (\<lambda>i. map (\<lambda>j. (i, j)) [i + 1..<N + 1]) [0..<N])"

definition swap_range :: "nat \<Rightarrow> nat \<Rightarrow> int list \<Rightarrow> int list \<Rightarrow> int list \<times> int list" where
  "swap_range i j xs ys =
     (take i xs @ take (j - i) (drop i ys) @ drop j xs,
      take i ys @ take (j - i) (drop i xs) @ drop j ys)"

definition cxTwoPoint :: "nat \<times> nat \<Rightarrow> individual \<Rightarrow> individual \<Rightarrow> individual \<times> individual" where
  "cxTwoPoint points ind1 ind2 =
     (let (i, j) = points;
          (xs, ys) = swap_range i j (alleles ind1) (alleles ind2)
      in (ind1\<lparr>alleles := xs\<rparr>, ind2\<lparr>alleles := ys\<rparr>))"

subsection \<open>A small toolbox\<close>

text \<open>
  A toolbox to run the definitions on: the random generator is a counter whose draws
  alternate between 0 and 0.9, selection keeps the first individuals, mating crosses at
  the points (1, 2) and mutation flips every allele.
\<close>

definition example_toolbox :: "nat toolbox" where
  "example_toolbox =
     \<lparr>population = (\<lambda>n rng. (replicate n \<lparr>alleles = replicate 100 1, fitness = []\<rparr>, rng)),
      select = (\<lambda>pop k rng. (take k pop, rng)),
      mate = (\<lambda>ind1 ind2 rng. (cxTwoPoint (1, 2) ind1 ind2, rng)),
      mutate = (\<lambda>ind rng. (ind\<lparr>alleles := map (\<lambda>x. 1 - x) (alleles ind)\<rparr>, rng)),
      random_random = (\<lambda>rng. (if even rng then 0 else 9 / 10, rng + 1))\<rparr>"

definition example_offspring :: "individual list" where
  "example_offspring =
     [\<lparr>alleles = [1, 0, 1], fitness = [2]\<rparr>, \<lparr>alleles = [0, 1, 0], fitness = [1]\<rparr>,
      \<lparr>alleles = [1, 1, 0], fitness = [2]\<rparr>, \<lparr>alleles = [0, 0, 0], fitness = [0]\<rparr>]"

definition example_next :: "individual list" where
  "example_next =
     [\<lparr>alleles = [0, 0, 0], fitness = [0]\<rparr>, \<lparr>alleles = [0, 0, 0], fitness = [0]\<rparr>,
      \<lparr>alleles = [0, 0, 1], fitness = [1]\<rparr>, \<lparr>alleles = [0, 0, 0], fitness = [0]\<rparr>]"

subsection \<open>Cloning, on a store of objects\<close>

text \<open>
  Modelled from the spec: \<^verbatim>\<open>toolbox.clone\<close>, the deep copy that the DEAP toolbox
  provides, is missing from the sources. The spec: "deep-copies alleles and Fitness (if
  valid) into a wholly independent instance; no shared backing storage". Here objects
  live in a store and are named by their addresses: an individual object holds its
  alleles and the address of its fitness object, whose content is the tuple of values.
  \<open>clone_ref\<close> allocates a new fitness object and a new individual object with the same
  contents; \<open>clone_all\<close> is line 133, \<^verbatim>\<open>list(map(toolbox.clone, offspring))\<close>, one call
  for each selected reference.
\<close>

record store =
  genomes :: "(int list \<times> nat) list"
  fit_objs :: "real list list"

text \<open>Every individual object refers to an allocated fitness object.\<close>

definition wf_store :: "store \<Rightarrow> bool" where
  "wf_store h = list_all (\<lambda>p. snd p < length (fit_objs h)) (genomes h)"

text \<open>The individual a reference denotes.\<close>

definition deref :: "store \<Rightarrow> nat \<Rightarrow> individual" where
  "deref h a = (case genomes h ! a of (xs, f) \<Rightarrow> \<lparr>alleles = xs, fitness = fit_objs h ! f\<rparr>)"

definition clone_ref :: "store \<Rightarrow> nat \<Rightarrow> nat \<times> store" where
  "clone_ref h a =
     (case genomes h ! a of
        (xs, f) \<Rightarrow>
          (length (genomes h),
           h\<lparr>genomes := genomes h @ [(xs, length (fit_objs h))],
             fit_objs := fit_objs h @ [fit_objs h ! f]\<rparr>))"

fun clone_all :: "store \<Rightarrow> nat list \<Rightarrow> nat list \<times> store" where
  "clone_all h [] = ([], h)"
| "clone_all h (a # rest) =
     (let (a', h1) = clone_ref h a;
          (rest', h2) = clone_all h1 rest
      in (a' # rest', h2))"

text \<open>
  The writes of the program through a reference: \<^verbatim>\<open>ind[i] = v\<close>, and
  \<^verbatim>\<open>ind.fitness.values = vs\<close> (with \<open>vs = []\<close> for \<^verbatim>\<open>del ind.fitness.values\<close>).
\<close>

definition write_allele :: "store \<Rightarrow> nat \<Rightarrow> nat \<Rightarrow> int \<Rightarrow> store" where
  "write_allele h a i v =
     (case genomes h ! a of (xs, f) \<Rightarrow> h\<lparr>genomes := (genomes h)[a := (xs[i := v], f)]\<rparr>)"

definition write_fitness :: "store \<Rightarrow> nat \<Rightarrow> real list \<Rightarrow> store" where
  "write_fitness h a vs =
     (case genomes h ! a of (xs, f) \<Rightarrow> h\<lparr>fit_objs := (fit_objs h)[f := vs]\<rparr>)"

text \<open>
  A store of two individuals, and the store after the first one is cloned twice.
\<close>

definition example_store :: store where
  "example_store = \<lparr>genomes = [([1, 0, 1], 0), ([0, 1, 0], 1)], fit_objs = [[2], [1]]\<rparr>"

definition example_cloned :: store where
  "example_cloned =
     \<lparr>genomes = [([1, 0, 1], 0), ([0, 1, 0], 1), ([1, 0, 1], 2), ([1, 0, 1], 3)],
      fit_objs = [[2], [1], [2], [2]]\<rparr>"

subsection \<open>Random generators that deliver the same draws\<close>

text \<open>
  Two runs see the same stream of random draws when, from related states of their random
  generators, every operation that consults the generator returns the same result and
  leaves related states. The two generators may keep their state in different types; two
  runs with one toolbox from one seed are the case where the relation is equality.
\<close>

definition same_draws :: "('r \<Rightarrow> 's \<Rightarrow> bool) \<Rightarrow> 'r toolbox \<Rightarrow> 's toolbox \<Rightarrow> bool" where
  "same_draws R tb1 tb2 \<longleftrightarrow>
     (\<forall>a b. R a b \<longrightarrow>
        fst (random_random tb1 a) = fst (random_random tb2 b)
      \<and> R (snd (random_random tb1 a)) (snd (random_random tb2 b))
      \<and> (\<forall>pop k. fst (select tb1 pop k a) = fst (select tb2 pop k b)
                 \<and> R (snd (select tb1 pop k a)) (snd (select tb2 pop k b)))
      \<and> (\<forall>x y. fst (mate tb1 x y a) = fst (mate tb2 x y b)
               \<and> R (snd (mate tb1 x y a)) (snd (mate tb2 x y b)))
      \<and> (\<forall>x. fst (mutate tb1 x a) = fst (mutate tb2 x b)
             \<and> R (snd (mutate tb1 x a)) (snd (mutate tb2 x b))))"

text \<open>
  The small toolbox again, with a random generator that keeps only the parity of the
  counter.
\<close>

definition parity_toolbox :: "bool toolbox" where
  "parity_toolbox =
     \<lparr>population = (\<lambda>n rng. (replicate n \<lparr>alleles = replicate 100 1, fitness = []\<rparr>, rng)),
      select = (\<lambda>pop k rng. (take k pop, rng)),
      mate = (\<lambda>ind1 ind2 rng. (cxTwoPoint (1, 2) ind1 ind2, rng)),
      mutate = (\<lambda>ind rng. (ind\<lparr>alleles := map (\<lambda>x. 1 - x) (alleles ind)\<rparr>, rng)),
      random_random = (\<lambda>rng. (if rng then 0 else 9 / 10, \<not> rng))\<rparr>"

section \<open>Properties\<close>

lemma fold_max_Max: "fold max xs (x::real) = Max (insert x (set xs))"
proof (induction xs arbitrary: x)
  case Nil
  show ?case by simp
next
  case (Cons y ys)
  have "fold max (y # ys) x = Max (insert (max y x) (set ys))"
    using Cons.IH [of "max y x"] by simp
  also have "\<dots> = Max (insert x (insert y (set ys)))"
    by (cases ys) (simp_all add: ac_simps)
  finally show ?case by simp
qed

lemma fold_min_Min: "fold min xs (x::real) = Min (insert x (set xs))"
proof (induction xs arbitrary: x)
  case Nil
  show ?case by simp
next
  case (Cons y ys)
  have "fold min (y # ys) x = Min (insert (min y x) (set ys))"
    using Cons.IH [of "min y x"] by simp
  also have "\<dots> = Min (insert x (insert y (set ys)))"
    by (cases ys) (simp_all add: ac_simps)
  finally show ?case by simp
qed

text \<open>
  C4. For a non-empty list of fitness values, the reported statistics are the least and the
  greatest value, the arithmetic mean and the population standard deviation
  \<open>sqrt \<bar>sum of squares / M - mean\<^sup>2\<bar>\<close>; for \<open>[1, 2, 3, 4]\<close> they are 1, 4, 5/2 and
  \<open>sqrt (5/4)\<close>.
\<close>

theorem report_statistics:
  assumes "fits \<noteq> []"
  shows "report (length fits) fits =
           Inr \<lparr>s_min = Min (set fits), s_max = Max (set fits),
                s_mean = sum_list fits / real (length fits),
                s_std = sqrt \<bar>(\<Sum>x\<leftarrow>fits. x\<^sup>2) / real (length fits)
                              - (sum_list fits / real (length fits))\<^sup>2\<bar>\<rparr>
         \<and> report 4 [1, 2, 3, 4] =
           Inr \<lparr>s_min = 1, s_max = 4, s_mean = 5 / 2, s_std = sqrt (5 / 4)\<rparr>"
proof -
  obtain x xs where fits: "fits = x # xs"
    using assms by (cases fits) auto
  have sq: "map (\<lambda>x. x * x) fits = map (\<lambda>x. x\<^sup>2) fits"
    by (simp add: power2_eq_square)
  have general: "report (length fits) fits =
           Inr \<lparr>s_min = Min (set fits), s_max = Max (set fits),
                s_mean = sum_list fits / real (length fits),
                s_std = sqrt \<bar>(\<Sum>x\<leftarrow>fits. x\<^sup>2) / real (length fits)
                              - (sum_list fits / real (length fits))\<^sup>2\<bar>\<rparr>"
    unfolding report_def Let_def sq
    by (simp add: fits fold_max_Max fold_min_Min powr_half_sqrt)
  have concrete: "report 4 [1, 2, 3, 4] =
           Inr \<lparr>s_min = 1, s_max = 4, s_mean = 5 / 2, s_std = sqrt (5 / 4)\<rparr>"
    by (simp add: report_def Let_def powr_half_sqrt power2_eq_square)
  from general concrete show ?thesis by simp
qed

theorem report_statistics_witness:
  "[2, 0, 2 :: real] \<noteq> []
   \<and> report (length [2, 0, 2 :: real]) [2, 0, 2] =
       Inr \<lparr>s_min = 0, s_max = 2, s_mean = 4 / 3, s_std = sqrt (8 / 9)\<rparr>"
proof -
  have h: "[2, 0, 2 :: real] \<noteq> []" by simp
  have "report (length [2, 0, 2 :: real]) [2, 0, 2] =
          Inr \<lparr>s_min = Min (set [2, 0, 2]), s_max = Max (set [2, 0, 2]),
               s_mean = sum_list [2, 0, 2] / real (length [2, 0, 2 :: real]),
               s_std = sqrt \<bar>(\<Sum>x\<leftarrow>[2, 0, 2]. x\<^sup>2) / real (length [2, 0, 2 :: real])
                             - (sum_list [2, 0, 2] / real (length [2, 0, 2 :: real]))\<^sup>2\<bar>\<rparr>"
    using report_statistics [OF h] by (rule conjunct1)
  also have "\<dots> = Inr \<lparr>s_min = 0, s_max = 2, s_mean = 4 / 3, s_std = sqrt (8 / 9)\<rparr>"
    by (simp add: power2_eq_square)
  finally show ?thesis by simp
qed

subsection \<open>Re-evaluation\<close>

lemma assign_fitnesses_calls:
  "snd (assign_fitnesses is (off, calls)) = calls @ is"
  by (induction "is" arbitrary: off calls) (simp_all add: Let_def)

lemma assign_fitnesses_length:
  "length (fst (assign_fitnesses is (off, calls))) = length off"
  by (induction "is" arbitrary: off calls) (simp_all add: Let_def)

lemma assign_fitnesses_other:
  "k \<notin> set is \<Longrightarrow> fst (assign_fitnesses is (off, calls)) ! k = off ! k"
  by (induction "is" arbitrary: off calls) (auto simp add: Let_def)

lemma assign_fitnesses_hit:
  "distinct is \<Longrightarrow> k \<in> set is \<Longrightarrow> k < length off \<Longrightarrow>
   fst (assign_fitnesses is (off, calls)) ! k = set_values (off ! k) (evalOneMax (off ! k))"
proof (induction "is" arbitrary: off calls)
  case Nil
  then show ?case by simp
next
  case (Cons i rest)
  show ?case
  proof (cases "k = i")
    case True
    then have "k \<notin> set rest" using Cons.prems by simp
    then show ?thesis using True Cons.prems
      by (simp add: Let_def assign_fitnesses_other)
  next
    case False
    then show ?thesis using Cons by (simp add: Let_def)
  qed
qed

lemma count_list_distinct:
  "distinct xs \<Longrightarrow> count_list xs x = (if x \<in> set xs then 1 else 0)"
  by (induction xs) auto

lemma length_invalid_ind:
  "length (invalid_ind off) = length (filter (\<lambda>ind. \<not> valid ind) off)"
proof -
  have "length (filter (\<lambda>ind. \<not> valid ind) (map ((!) off) [0..<length off]))
        = length (filter (\<lambda>i. \<not> valid (off ! i)) [0..<length off])"
    unfolding filter_map by (simp add: comp_def)
  then show ?thesis by (simp add: map_nth invalid_ind_def)
qed

text \<open>
  C2. The re-evaluation step calls the evaluator exactly once on every offspring whose
  fitness is invalid and never on one whose fitness is valid: the number of calls is the
  number of invalid offspring, and the valid offspring are unchanged.
\<close>

theorem reevaluation_minimal:
  assumes "assign_fitnesses (invalid_ind offspring) (offspring, []) = (offspring', calls)"
  shows "length calls = length (filter (\<lambda>ind. \<not> valid ind) offspring)
       \<and> length offspring' = length offspring
       \<and> (\<forall>i<length offspring.
             count_list calls i = (if valid (offspring ! i) then 0 else 1))
       \<and> (\<forall>i<length offspring. valid (offspring ! i) \<longrightarrow> offspring' ! i = offspring ! i)
       \<and> (\<forall>i<length offspring. \<not> valid (offspring ! i) \<longrightarrow>
             offspring' ! i = set_values (offspring ! i) (evalOneMax (offspring ! i)))"
proof -
  have calls: "calls = invalid_ind offspring"
    using assign_fitnesses_calls [of "invalid_ind offspring" offspring "[]"] assms by simp
  have off': "offspring' = fst (assign_fitnesses (invalid_ind offspring) (offspring, []))"
    using assms by simp
  have dist: "distinct (invalid_ind offspring)"
    by (simp add: invalid_ind_def)
  have mem: "i \<in> set (invalid_ind offspring) \<longleftrightarrow> i < length offspring \<and> \<not> valid (offspring ! i)" for i
    by (auto simp add: invalid_ind_def)
  have c1: "length calls = length (filter (\<lambda>ind. \<not> valid ind) offspring)"
    by (simp add: calls length_invalid_ind)
  have c2: "length offspring' = length offspring"
    by (simp add: off' assign_fitnesses_length)
  have c3: "\<forall>i<length offspring. count_list calls i = (if valid (offspring ! i) then 0 else 1)"
    by (simp add: calls count_list_distinct [OF dist] mem)
  have c4: "\<forall>i<length offspring. valid (offspring ! i) \<longrightarrow> offspring' ! i = offspring ! i"
    by (simp add: off' assign_fitnesses_other mem)
  have c5: "\<forall>i<length offspring. \<not> valid (offspring ! i) \<longrightarrow>
             offspring' ! i = set_values (offspring ! i) (evalOneMax (offspring ! i))"
    by (simp add: off' assign_fitnesses_hit [OF dist] mem)
  from c1 c2 c3 c4 c5 show ?thesis by blast
qed

theorem reevaluation_minimal_witness:
  "assign_fitnesses
     (invalid_ind [\<lparr>alleles = [1, 1], fitness = [2]\<rparr>, \<lparr>alleles = [1, 0], fitness = []\<rparr>,
                   \<lparr>alleles = [0, 0], fitness = []\<rparr>])
     ([\<lparr>alleles = [1, 1], fitness = [2]\<rparr>, \<lparr>alleles = [1, 0], fitness = []\<rparr>,
       \<lparr>alleles = [0, 0], fitness = []\<rparr>], [])
   = ([\<lparr>alleles = [1, 1], fitness = [2]\<rparr>, \<lparr>alleles = [1, 0], fitness = [1]\<rparr>,
       \<lparr>alleles = [0, 0], fitness = [0]\<rparr>], [1, 2])
   \<and> length [1, 2 :: nat]
       = length (filter (\<lambda>ind. \<not> valid ind)
           [\<lparr>alleles = [1, 1], fitness = [2]\<rparr>, \<lparr>alleles = [1, 0], fitness = []\<rparr>,
            \<lparr>alleles = [0, 0], fitness = []\<rparr>])
   \<and> count_list [1, 2 :: nat] 0 = 0 \<and> count_list [1, 2 :: nat] 1 = 1
   \<and> count_list [1, 2 :: nat] 2 = 1"
proof -
  let ?off = "[\<lparr>alleles = [1, 1], fitness = [2]\<rparr>, \<lparr>alleles = [1, 0], fitness = []\<rparr>,
               \<lparr>alleles = [0, 0], fitness = []\<rparr>]"
  let ?off' = "[\<lparr>alleles = [1, 1], fitness = [2]\<rparr>, \<lparr>alleles = [1, 0], fitness = [1]\<rparr>,
               \<lparr>alleles = [0, 0], fitness = [0]\<rparr>]"
  have inv: "invalid_ind ?off = [1, 2]"
    by (simp add: invalid_ind_def valid_def upt_rec)
  have run: "assign_fitnesses (invalid_ind ?off) (?off, []) = (?off', [1, 2])"
    unfolding inv by (simp add: Let_def evalOneMax_def set_values_def)
  show ?thesis
    using run reevaluation_minimal [OF run] by (simp add: valid_def)
qed

subsection \<open>Crossover and mutation passes\<close>

lemma valid_del_values [simp]: "\<not> valid (del_values ind)"
  by (simp add: valid_def del_values_def)

lemma crossover_pass_inv:
  assumes "\<forall>p\<in>set ps. fst p < length off \<and> snd p < length off"
      and "\<forall>k\<in>set mated. \<not> valid (off ! k)"
      and "crossover_pass tb cxpb ps (off, rng, mated) = (off', rng', mated')"
  shows "length off' = length off
       \<and> (\<forall>k\<in>set mated'. \<not> valid (off' ! k))
       \<and> (\<forall>k. \<not> valid (off ! k) \<longrightarrow> \<not> valid (off' ! k))
       \<and> (\<forall>k. (\<forall>p\<in>set ps. fst p \<noteq> k \<and> snd p \<noteq> k) \<longrightarrow> off' ! k = off ! k)
       \<and> set mated' \<subseteq> set mated \<union> fst ` set ps \<union> snd ` set ps"
  using assms
proof (induction ps arbitrary: off rng mated)
  case Nil
  then show ?case by simp
next
  case (Cons p ps)
  obtain i j where p: "p = (i, j)" by (cases p)
  obtain u rng1 where u: "random_random tb rng = (u, rng1)" by (cases "random_random tb rng")
  have ij: "i < length off" "j < length off" using Cons.prems(1) p by auto
  show ?case
  proof (cases "u < cxpb")
    case False
    then have step: "crossover_pass tb cxpb ps (off, rng1, mated) = (off', rng', mated')"
      using Cons.prems(3) p u by simp
    have "\<forall>p\<in>set ps. fst p < length off \<and> snd p < length off" using Cons.prems(1) by simp
    from Cons.IH [OF this Cons.prems(2) step] show ?thesis by auto
  next
    case True
    obtain c1 c2 rng2 where m: "mate tb (off ! i) (off ! j) rng1 = ((c1, c2), rng2)"
      by (metis prod.exhaust)
    let ?off2 = "off[i := del_values c1, j := del_values c2]"
    have step: "crossover_pass tb cxpb ps (?off2, rng2, mated @ [i, j]) = (off', rng', mated')"
      using Cons.prems(3) p u m True by simp
    have a1: "\<forall>p\<in>set ps. fst p < length ?off2 \<and> snd p < length ?off2"
      using Cons.prems(1) by simp
    have keep: "\<not> valid (off ! k) \<Longrightarrow> \<not> valid (?off2 ! k)" for k
      using ij by (cases "k = j"; cases "k = i") (simp_all add: nth_list_update)
    have a2: "\<forall>k\<in>set (mated @ [i, j]). \<not> valid (?off2 ! k)"
      using Cons.prems(2) ij keep by (auto simp add: nth_list_update)
    from Cons.IH [OF a1 a2 step]
    have ih: "length off' = length ?off2"
      "\<forall>k\<in>set mated'. \<not> valid (off' ! k)"
      "\<forall>k. \<not> valid (?off2 ! k) \<longrightarrow> \<not> valid (off' ! k)"
      "\<forall>k. (\<forall>p\<in>set ps. fst p \<noteq> k \<and> snd p \<noteq> k) \<longrightarrow> off' ! k = ?off2 ! k"
      "set mated' \<subseteq> set (mated @ [i, j]) \<union> fst ` set ps \<union> snd ` set ps"
      by blast+
    have c1: "length off' = length off" using ih(1) by simp
    have c3: "\<forall>k. \<not> valid (off ! k) \<longrightarrow> \<not> valid (off' ! k)"
      using ih(3) keep by blast
    have c4: "\<forall>k. (\<forall>q\<in>set (p # ps). fst q \<noteq> k \<and> snd q \<noteq> k) \<longrightarrow> off' ! k = off ! k"
      using ih(4) p by simp
    have c5: "set mated' \<subseteq> set mated \<union> fst ` set (p # ps) \<union> snd ` set (p # ps)"
      using ih(5) p by auto
    from c1 ih(2) c3 c4 c5 show ?thesis by blast
  qed
qed

lemma mutation_pass_inv:
  assumes "\<forall>i\<in>set is. i < length off"
      and "\<forall>k\<in>set mutated. \<not> valid (off ! k)"
      and "mutation_pass tb mutpb is (off, rng, mutated) = (off', rng', mutated')"
  shows "length off' = length off
       \<and> (\<forall>k\<in>set mutated'. \<not> valid (off' ! k))
       \<and> (\<forall>k. \<not> valid (off ! k) \<longrightarrow> \<not> valid (off' ! k))
       \<and> set mutated' \<subseteq> set mutated \<union> set is"
  using assms
proof (induction "is" arbitrary: off rng mutated)
  case Nil
  then show ?case by simp
next
  case (Cons i rest)
  obtain u rng1 where u: "random_random tb rng = (u, rng1)" by (cases "random_random tb rng")
  have i: "i < length off" using Cons.prems(1) by simp
  show ?case
  proof (cases "u < mutpb")
    case False
    then have step: "mutation_pass tb mutpb rest (off, rng1, mutated) = (off', rng', mutated')"
      using Cons.prems(3) u by simp
    have "\<forall>i\<in>set rest. i < length off" using Cons.prems(1) by simp
    from Cons.IH [OF this Cons.prems(2) step] show ?thesis by auto
  next
    case True
    obtain m rng2 where m: "mutate tb (off ! i) rng1 = (m, rng2)"
      by (metis prod.exhaust)
    let ?off1 = "off[i := del_values m]"
    have step: "mutation_pass tb mutpb rest (?off1, rng2, mutated @ [i]) = (off', rng', mutated')"
      using Cons.prems(3) u m True by simp
    have a1: "\<forall>i\<in>set rest. i < length ?off1"
      using Cons.prems(1) by simp
    have keep: "\<not> valid (off ! k) \<Longrightarrow> \<not> valid (?off1 ! k)" for k
      using i by (cases "k = i") (simp_all add: nth_list_update)
    have a2: "\<forall>k\<in>set (mutated @ [i]). \<not> valid (?off1 ! k)"
      using Cons.prems(2) i keep by (auto simp add: nth_list_update)
    from Cons.IH [OF a1 a2 step]
    have ih: "length off' = length ?off1"
      "\<forall>k\<in>set mutated'. \<not> valid (off' ! k)"
      "\<forall>k. \<not> valid (?off1 ! k) \<longrightarrow> \<not> valid (off' ! k)"
      "set mutated' \<subseteq> set (mutated @ [i]) \<union> set rest"
      by blast+
    have c1: "length off' = length off" using ih(1) by simp
    have c3: "\<forall>k. \<not> valid (off ! k) \<longrightarrow> \<not> valid (off' ! k)"
      using ih(3) keep by blast
    have c4: "set mutated' \<subseteq> set mutated \<union> set (i # rest)"
      using ih(4) by auto
    from c1 ih(2) c3 c4 show ?thesis by blast
  qed
qed

lemma every_other_length: "length (every_other xs) = (length xs + 1) div 2"
  by (induction xs rule: every_other.induct) simp_all

lemma every_other_nth: "k < (length xs + 1) div 2 \<Longrightarrow> every_other xs ! k = xs ! (2 * k)"
proof (induction xs arbitrary: k rule: every_other.induct)
  case 1
  then show ?case by simp
next
  case (2 x)
  then show ?case by simp
next
  case (3 x y xs)
  then show ?case by (cases k) simp_all
qed

lemma child_pairs_eq: "child_pairs n = map (\<lambda>k. (2 * k, 2 * k + 1)) [0..<n div 2]"
proof (rule nth_equalityI)
  show "length (child_pairs n) = length (map (\<lambda>k. (2 * k, 2 * k + 1)) [0..<n div 2])"
    by (simp add: child_pairs_def every_other_length)
next
  fix k assume "k < length (child_pairs n)"
  then have k: "k < n div 2"
    by (simp add: child_pairs_def every_other_length)
  then have "every_other [0..<n] ! k = 2 * k" "every_other (drop 1 [0..<n]) ! k = 2 * k + 1"
    by (simp_all add: every_other_nth)
  then show "child_pairs n ! k = map (\<lambda>k. (2 * k, 2 * k + 1)) [0..<n div 2] ! k"
    using k by (simp add: child_pairs_def every_other_length)
qed

lemma child_pairs_bound:
  "p \<in> set (child_pairs n) \<Longrightarrow> fst p < n \<and> snd p < n \<and> snd p = fst p + 1 \<and> even (fst p)"
  by (auto simp add: child_pairs_eq)

lemma example_crossover:
  "crossover_pass example_toolbox CXPB (child_pairs (length example_offspring))
     (example_offspring, 0, [])
   = ([\<lparr>alleles = [1, 1, 1], fitness = []\<rparr>, \<lparr>alleles = [0, 0, 0], fitness = []\<rparr>,
       \<lparr>alleles = [1, 1, 0], fitness = [2]\<rparr>, \<lparr>alleles = [0, 0, 0], fitness = [0]\<rparr>], 2, [0, 1])"
  by (simp add: child_pairs_def example_offspring_def example_toolbox_def CXPB_def upt_rec
      cxTwoPoint_def swap_range_def del_values_def)

lemma example_mutation:
  "mutation_pass example_toolbox MUTPB [0..<4]
     ([\<lparr>alleles = [1, 1, 1], fitness = []\<rparr>, \<lparr>alleles = [0, 0, 0], fitness = []\<rparr>,
       \<lparr>alleles = [1, 1, 0], fitness = [2]\<rparr>, \<lparr>alleles = [0, 0, 0], fitness = [0]\<rparr>], 2, [])
   = ([\<lparr>alleles = [0, 0, 0], fitness = []\<rparr>, \<lparr>alleles = [0, 0, 0], fitness = []\<rparr>,
       \<lparr>alleles = [0, 0, 1], fitness = []\<rparr>, \<lparr>alleles = [0, 0, 0], fitness = [0]\<rparr>], 6, [0, 2])"
  by (simp add: example_toolbox_def MUTPB_def upt_rec del_values_def)

text \<open>
  C1. Every offspring handed to the crossover operator has an invalid fitness at the end of
  the crossover pass, and every offspring handed to the crossover or the mutation operator
  has an invalid fitness at the end of the mutation pass and is among the individuals the
  re-evaluation step evaluates.
\<close>

theorem variation_invalidates:
  assumes "crossover_pass tb cxpb (child_pairs (length offspring)) (offspring, rng, [])
             = (offspring1, rng1, mated)"
      and "mutation_pass tb mutpb [0..<length offspring1] (offspring1, rng1, [])
             = (offspring2, rng2, mutated)"
  shows "(\<forall>i\<in>set mated. \<not> valid (offspring1 ! i))
       \<and> (\<forall>i\<in>set mated \<union> set mutated.
             \<not> valid (offspring2 ! i) \<and> i \<in> set (invalid_ind offspring2))"
proof -
  have b: "\<forall>p\<in>set (child_pairs (length offspring)).
             fst p < length offspring \<and> snd p < length offspring"
    using child_pairs_bound by blast
  have e: "\<forall>k\<in>set ([]::nat list). \<not> valid (offspring ! k)" by simp
  from crossover_pass_inv [OF b e assms(1)]
  have cx: "length offspring1 = length offspring"
    "\<forall>k\<in>set mated. \<not> valid (offspring1 ! k)"
    "set mated \<subseteq> fst ` set (child_pairs (length offspring))
                  \<union> snd ` set (child_pairs (length offspring))"
    by auto
  have mated_lt: "\<forall>k\<in>set mated. k < length offspring"
    using cx(3) b by auto
  have b2: "\<forall>i\<in>set [0..<length offspring1]. i < length offspring1" by simp
  have e2: "\<forall>k\<in>set ([]::nat list). \<not> valid (offspring1 ! k)" by simp
  from mutation_pass_inv [OF b2 e2 assms(2)]
  have mu: "length offspring2 = length offspring1"
    "\<forall>k\<in>set mutated. \<not> valid (offspring2 ! k)"
    "\<forall>k. \<not> valid (offspring1 ! k) \<longrightarrow> \<not> valid (offspring2 ! k)"
    "set mutated \<subseteq> set [0..<length offspring1]"
    by auto
  have inv: "\<forall>i\<in>set mated \<union> set mutated. \<not> valid (offspring2 ! i)"
    using cx(2) mu(2) mu(3) by blast
  have lt: "\<forall>i\<in>set mated \<union> set mutated. i < length offspring2"
    using mated_lt mu(4) mu(1) cx(1) by auto
  have "\<forall>i\<in>set mated \<union> set mutated. i \<in> set (invalid_ind offspring2)"
    using inv lt by (simp add: invalid_ind_def)
  with cx(2) inv show ?thesis by blast
qed

theorem variation_invalidates_witness:
  "crossover_pass example_toolbox CXPB (child_pairs (length example_offspring))
     (example_offspring, 0, [])
   = ([\<lparr>alleles = [1, 1, 1], fitness = []\<rparr>, \<lparr>alleles = [0, 0, 0], fitness = []\<rparr>,
       \<lparr>alleles = [1, 1, 0], fitness = [2]\<rparr>, \<lparr>alleles = [0, 0, 0], fitness = [0]\<rparr>], 2, [0, 1])
   \<and> mutation_pass example_toolbox MUTPB [0..<4]
     ([\<lparr>alleles = [1, 1, 1], fitness = []\<rparr>, \<lparr>alleles = [0, 0, 0], fitness = []\<rparr>,
       \<lparr>alleles = [1, 1, 0], fitness = [2]\<rparr>, \<lparr>alleles = [0, 0, 0], fitness = [0]\<rparr>], 2, [])
   = ([\<lparr>alleles = [0, 0, 0], fitness = []\<rparr>, \<lparr>alleles = [0, 0, 0], fitness = []\<rparr>,
       \<lparr>alleles = [0, 0, 1], fitness = []\<rparr>, \<lparr>alleles = [0, 0, 0], fitness = [0]\<rparr>], 6, [0, 2])
   \<and> set [0, 1] \<union> set [0, 2 :: nat]
       \<subseteq> set (invalid_ind
           [\<lparr>alleles = [0, 0, 0], fitness = []\<rparr>, \<lparr>alleles = [0, 0, 0], fitness = []\<rparr>,
            \<lparr>alleles = [0, 0, 1], fitness = []\<rparr>, \<lparr>alleles = [0, 0, 0], fitness = [0]\<rparr>])
   \<and> invalid_ind
           [\<lparr>alleles = [0, 0, 0], fitness = []\<rparr>, \<lparr>alleles = [0, 0, 0], fitness = []\<rparr>,
            \<lparr>alleles = [0, 0, 1], fitness = []\<rparr>, \<lparr>alleles = [0, 0, 0], fitness = [0]\<rparr>]
       = [0, 1, 2]"
proof -
  let ?off1 = "[\<lparr>alleles = [1, 1, 1], fitness = []\<rparr>, \<lparr>alleles = [0, 0, 0], fitness = []\<rparr>,
       \<lparr>alleles = [1, 1, 0], fitness = [2]\<rparr>, \<lparr>alleles = [0, 0, 0], fitness = [0]\<rparr>]"
  have len: "length ?off1 = 4" by simp
  have m: "mutation_pass example_toolbox MUTPB [0..<length ?off1] (?off1, 2, [])
     = ([\<lparr>alleles = [0, 0, 0], fitness = []\<rparr>, \<lparr>alleles = [0, 0, 0], fitness = []\<rparr>,
       \<lparr>alleles = [0, 0, 1], fitness = []\<rparr>, \<lparr>alleles = [0, 0, 0], fitness = [0]\<rparr>], 6, [0, 2])"
    unfolding len by (rule example_mutation)
  have "invalid_ind
           [\<lparr>alleles = [0, 0, 0], fitness = []\<rparr>, \<lparr>alleles = [0, 0, 0], fitness = []\<rparr>,
            \<lparr>alleles = [0, 0, 1], fitness = []\<rparr>, \<lparr>alleles = [0, 0, 0], fitness = [0]\<rparr>]
       = [0, 1, 2]"
    by (simp add: invalid_ind_def valid_def upt_rec)
  then show ?thesis
    using variation_invalidates [OF example_crossover m] example_crossover example_mutation
    by simp
qed

text \<open>
  C8. The crossover pass pairs the positions (0,1), (2,3), ...; when the number of
  offspring is odd, the last one is in no pair, is never handed to the crossover operator
  and is unchanged by the pass, and every other offspring is in a pair.
\<close>

theorem crossover_pairs_adjacent:
  assumes "crossover_pass tb cxpb (child_pairs (length offspring)) (offspring, rng, [])
             = (offspring1, rng1, mated)"
  shows "child_pairs (length offspring)
           = map (\<lambda>k. (2 * k, 2 * k + 1)) [0..<length offspring div 2]
       \<and> (odd (length offspring) \<longrightarrow>
            length offspring - 1 \<notin> set mated
          \<and> offspring1 ! (length offspring - 1) = offspring ! (length offspring - 1)
          \<and> (\<forall>p\<in>set (child_pairs (length offspring)).
                fst p \<noteq> length offspring - 1 \<and> snd p \<noteq> length offspring - 1)
          \<and> (\<forall>i<length offspring - 1.
                \<exists>p\<in>set (child_pairs (length offspring)). i = fst p \<or> i = snd p))"
proof -
  let ?n = "length offspring"
  have b: "\<forall>p\<in>set (child_pairs ?n). fst p < ?n \<and> snd p < ?n"
    using child_pairs_bound by blast
  have e: "\<forall>k\<in>set ([]::nat list). \<not> valid (offspring ! k)" by simp
  from crossover_pass_inv [OF b e assms]
  have cx: "\<forall>k. (\<forall>p\<in>set (child_pairs ?n). fst p \<noteq> k \<and> snd p \<noteq> k) \<longrightarrow> offspring1 ! k = offspring ! k"
    "set mated \<subseteq> fst ` set (child_pairs ?n) \<union> snd ` set (child_pairs ?n)"
    by auto
  {
    assume odd: "odd ?n"
    have last: "\<forall>p\<in>set (child_pairs ?n). fst p \<noteq> ?n - 1 \<and> snd p \<noteq> ?n - 1"
    proof
      fix p assume "p \<in> set (child_pairs ?n)"
      then obtain k where "k < ?n div 2" "p = (2 * k, 2 * k + 1)"
        by (auto simp add: child_pairs_eq)
      then show "fst p \<noteq> ?n - 1 \<and> snd p \<noteq> ?n - 1"
        using odd by (auto elim!: oddE)
    qed
    have notin: "?n - 1 \<notin> set mated" using cx(2) last by force
    have same: "offspring1 ! (?n - 1) = offspring ! (?n - 1)" using cx(1) last by blast
    have cover: "\<forall>i<?n - 1. \<exists>p\<in>set (child_pairs ?n). i = fst p \<or> i = snd p"
    proof (intro allI impI)
      fix i assume i: "i < ?n - 1"
      then have "i div 2 < ?n div 2" using odd by (auto elim!: oddE)
      then have "(2 * (i div 2), 2 * (i div 2) + 1) \<in> set (child_pairs ?n)"
        by (simp add: child_pairs_eq)
      moreover have "i = 2 * (i div 2) \<or> i = 2 * (i div 2) + 1" by presburger
      ultimately show "\<exists>p\<in>set (child_pairs ?n). i = fst p \<or> i = snd p"
        by force
    qed
    note notin same last cover
  }
  then show ?thesis using child_pairs_eq by blast
qed

theorem crossover_pairs_adjacent_witness:
  "crossover_pass example_toolbox CXPB (child_pairs (length (take 3 example_offspring)))
     (take 3 example_offspring, 0, [])
   = ([\<lparr>alleles = [1, 1, 1], fitness = []\<rparr>, \<lparr>alleles = [0, 0, 0], fitness = []\<rparr>,
       \<lparr>alleles = [1, 1, 0], fitness = [2]\<rparr>], 1, [0, 1])
   \<and> odd (length (take 3 example_offspring))
   \<and> child_pairs (length (take 3 example_offspring)) = [(0, 1)]
   \<and> 2 \<notin> set [0, 1 :: nat]
   \<and> take 3 example_offspring ! 2 = \<lparr>alleles = [1, 1, 0], fitness = [2]\<rparr>"
proof -
  have c: "crossover_pass example_toolbox CXPB (child_pairs (length (take 3 example_offspring)))
     (take 3 example_offspring, 0, [])
   = ([\<lparr>alleles = [1, 1, 1], fitness = []\<rparr>, \<lparr>alleles = [0, 0, 0], fitness = []\<rparr>,
       \<lparr>alleles = [1, 1, 0], fitness = [2]\<rparr>], 1, [0, 1])"
    by (simp add: child_pairs_def example_offspring_def example_toolbox_def CXPB_def upt_rec
      cxTwoPoint_def swap_range_def del_values_def)
  have l: "length (take 3 example_offspring) = 3"
    by (simp add: example_offspring_def)
  show ?thesis
    using crossover_pairs_adjacent [OF c] c
    by (simp add: l) (simp add: example_offspring_def)
qed

subsection \<open>One generation\<close>

lemma report_max: "report n fits = Inr st \<Longrightarrow> py_max fits = Inr (s_max st)"
  by (auto simp add: report_def Let_def split: if_splits sum.splits)

lemma report_error: "report n fits = Inl e \<Longrightarrow> length fits = n \<Longrightarrow> e = ZeroDivisionError"
  by (cases fits) (auto simp add: report_def Let_def split: if_splits sum.splits)

lemma valid_set_values_eval [simp]: "valid (set_values ind (evalOneMax ind'))"
  by (simp add: valid_def set_values_def evalOneMax_def)

lemma fits_of_valid:
  "list_all valid pop \<Longrightarrow> fits_of pop = Inr (map (\<lambda>ind. hd (fitness ind)) pop)"
  by (induction pop) (auto simp add: values0_def valid_def split: list.splits)

lemma fits_of_length: "fits_of pop = Inr fits \<Longrightarrow> length fits = length pop"
  by (induction pop arbitrary: fits) (auto split: sum.splits)

lemma fits_of_error: "fits_of pop = Inl e \<Longrightarrow> e = IndexError \<and> \<not> list_all valid pop"
  by (induction pop) (auto simp add: values0_def valid_def split: sum.splits list.splits)

lemma reevaluated_valid:
  "list_all valid (fst (assign_fitnesses (invalid_ind off) (off, [])))"
proof -
  let ?off' = "fst (assign_fitnesses (invalid_ind off) (off, []))"
  have dist: "distinct (invalid_ind off)" by (simp add: invalid_ind_def)
  have len: "length ?off' = length off" by (rule assign_fitnesses_length)
  have "valid (?off' ! k)" if k: "k < length off" for k
  proof (cases "valid (off ! k)")
    case True
    then have "k \<notin> set (invalid_ind off)" by (simp add: invalid_ind_def)
    then show ?thesis using True by (simp add: assign_fitnesses_other)
  next
    case False
    then have "k \<in> set (invalid_ind off)" using k by (simp add: invalid_ind_def)
    then show ?thesis using k by (simp add: assign_fitnesses_hit [OF dist])
  qed
  then show ?thesis using len by (simp add: list_all_length)
qed

lemma generation_cases:
  obtains (stopped) "generation tb cxpb mutpb pop rng = Inl ZeroDivisionError"
  | (ran) off st rng' where
      "generation tb cxpb mutpb pop rng =
         Inr \<lparr>g_pop = off, g_fits = map (\<lambda>ind. hd (fitness ind)) off, g_stats = st,
              g_rng = rng'\<rparr>"
      "list_all valid off"
      "report (length off) (map (\<lambda>ind. hd (fitness ind)) off) = Inr st"
proof -
  obtain selected rng1 where s: "select tb pop (length pop) rng = (selected, rng1)"
    by (cases "select tb pop (length pop) rng")
  obtain off1 rng2 mated where c:
    "crossover_pass tb cxpb (child_pairs (length selected))
       (map clone selected, rng1, []) = (off1, rng2, mated)"
    by (metis prod.exhaust)
  obtain off2 rng3 mutated where m:
    "mutation_pass tb mutpb [0..<length off1] (off1, rng2, []) = (off2, rng3, mutated)"
    by (metis prod.exhaust)
  obtain off3 calls where a: "assign_fitnesses (invalid_ind off2) (off2, []) = (off3, calls)"
    by (metis prod.exhaust)
  have v: "list_all valid off3"
    using reevaluated_valid [of off2] a by simp
  then have f: "fits_of off3 = Inr (map (\<lambda>ind. hd (fitness ind)) off3)"
    by (rule fits_of_valid)
  have g: "generation tb cxpb mutpb pop rng =
      (case report (length off3) (map (\<lambda>ind. hd (fitness ind)) off3) of
         Inl e \<Rightarrow> Inl e
       | Inr st \<Rightarrow> Inr \<lparr>g_pop = off3, g_fits = map (\<lambda>ind. hd (fitness ind)) off3,
                         g_stats = st, g_rng = rng3\<rparr>)"
    by (simp add: generation_def s c m a f)
  show thesis
  proof (cases "report (length off3) (map (\<lambda>ind. hd (fitness ind)) off3)")
    case (Inl e)
    then have "e = ZeroDivisionError" by (simp add: report_error)
    then show thesis using stopped g Inl by simp
  next
    case (Inr st)
    then show thesis using ran g v by simp
  qed
qed

lemma generation_result:
  assumes "generation tb cxpb mutpb pop rng = Inr r"
  shows "list_all valid (g_pop r) \<and> fits_of (g_pop r) = Inr (g_fits r)
       \<and> py_max (g_fits r) = Inr (s_max (g_stats r))"
proof (cases rule: generation_cases [of tb cxpb mutpb pop rng])
  case stopped
  then show ?thesis using assms by simp
next
  case (ran off st rng')
  then show ?thesis using assms by (auto simp add: fits_of_valid report_max)
qed

lemma generation_error:
  assumes "generation tb cxpb mutpb pop rng = Inl e"
  shows "e = ZeroDivisionError"
proof (cases rule: generation_cases [of tb cxpb mutpb pop rng])
  case stopped
  then show ?thesis using assms by simp
next
  case (ran off st rng')
  then show ?thesis using assms by simp
qed

subsection \<open>The loop\<close>

declare evolve.simps [simp del]

lemma evolve_stop:
  assumes "py_max fits = Inr best" and "100 \<le> best \<or> 1000 \<le> g"
  shows "evolve tb cxpb mutpb pop fits g rng out =
           Inr \<lparr>final_pop = pop, final_fits = fits, final_g = g, final_rng = rng,
                reports = out\<rparr>"
  using assms by (subst evolve.simps) auto

lemma evolve_step:
  assumes "py_max fits = Inr best" and "best < 100" and "g < 1000"
  shows "evolve tb cxpb mutpb pop fits g rng out =
           (case generation tb cxpb mutpb pop rng of
              Inl e \<Rightarrow> Inl e
            | Inr r \<Rightarrow>
                evolve tb cxpb mutpb (g_pop r) (g_fits r) (g + 1) (g_rng r)
                  (out @ [(g + 1, g_pop r, g_stats r)]))"
  using assms by (subst evolve.simps) simp


lemma evolve_counter:
  "evolve tb cxpb mutpb pop fits g rng out = Inr r \<Longrightarrow>
   g \<le> final_g r \<and> final_g r \<le> max g 1000
   \<and> (\<exists>best. py_max (final_fits r) = Inr best \<and> (100 \<le> best \<or> 1000 \<le> final_g r))"
proof (induction tb cxpb mutpb pop fits g rng out rule: evolve.induct)
  case (1 tb cxpb mutpb pop fits g rng out)
  show ?case
  proof (cases "py_max fits")
    case (Inl e')
    then show ?thesis using "1.prems" by (subst (asm) evolve.simps) simp
  next
    case (Inr best)
    show ?thesis
    proof (cases "best < 100 \<and> g < 1000")
      case False
      then have "100 \<le> best \<or> 1000 \<le> g" by auto
      from evolve_stop [OF Inr this, of tb cxpb mutpb pop rng out] "1.prems" Inr this
      show ?thesis by auto
    next
      case True
      show ?thesis
      proof (cases "generation tb cxpb mutpb pop rng")
        case (Inl e')
        then show ?thesis using "1.prems" Inr True by (simp add: evolve_step)
      next
        case g: (Inr r0)
        have "evolve tb cxpb mutpb (g_pop r0) (g_fits r0) (g + 1) (g_rng r0)
                (out @ [(g + 1, g_pop r0, g_stats r0)]) = Inr r"
          using "1.prems" Inr True g by (simp add: evolve_step)
        from "1.IH" [OF Inr True g this] True show ?thesis by auto
      qed
    qed
  qed
qed


lemma evolve_reports:
  "evolve tb cxpb mutpb pop fits g rng out = Inr r \<Longrightarrow>
   \<exists>new. reports r = out @ new \<and> length new = final_g r - g
     \<and> map fst new = [g + 1..<final_g r + 1]
     \<and> list_all (\<lambda>(k, p, st). s_max st < 100 \<and> k < 1000) (butlast new)"
proof (induction tb cxpb mutpb pop fits g rng out rule: evolve.induct)
  case (1 tb cxpb mutpb pop fits g rng out)
  show ?case
  proof (cases "py_max fits")
    case (Inl e')
    then show ?thesis using "1.prems" by (subst (asm) evolve.simps) simp
  next
    case (Inr best)
    show ?thesis
    proof (cases "best < 100 \<and> g < 1000")
      case False
      then have "100 \<le> best \<or> 1000 \<le> g" by auto
      from evolve_stop [OF Inr this, of tb cxpb mutpb pop rng out] "1.prems"
      show ?thesis by auto
    next
      case True
      show ?thesis
      proof (cases "generation tb cxpb mutpb pop rng")
        case (Inl e')
        then show ?thesis using "1.prems" Inr True by (simp add: evolve_step)
      next
        case g: (Inr r0)
        let ?entry = "(g + 1, g_pop r0, g_stats r0)"
        have run: "evolve tb cxpb mutpb (g_pop r0) (g_fits r0) (g + 1) (g_rng r0)
                (out @ [?entry]) = Inr r"
          using "1.prems" Inr True g by (simp add: evolve_step)
        from "1.IH" [OF Inr True g run]
        obtain new where new: "reports r = (out @ [?entry]) @ new"
          "length new = final_g r - (g + 1)"
          "map fst new = [g + 1 + 1..<final_g r + 1]"
          "list_all (\<lambda>(k, p, st). s_max st < 100 \<and> k < 1000) (butlast new)"
          by blast
        have le: "g + 1 \<le> final_g r" using evolve_counter [OF run] by simp
        have m: "py_max (g_fits r0) = Inr (s_max (g_stats r0))"
          using generation_result [OF g] by simp
        have first: "s_max (g_stats r0) < 100 \<and> g + 1 < 1000" if "new \<noteq> []"
        proof (rule ccontr)
          assume "\<not> (s_max (g_stats r0) < 100 \<and> g + 1 < 1000)"
          then have "100 \<le> s_max (g_stats r0) \<or> 1000 \<le> g + 1" by auto
          from evolve_stop [OF m this, of tb cxpb mutpb "g_pop r0" "g_rng r0" "out @ [?entry]"] run
          have "reports r = out @ [?entry]" by auto
          then show False using new(1) that by simp
        qed
        have c1: "reports r = out @ (?entry # new)" using new(1) by simp
        have c2: "length (?entry # new) = final_g r - g" using new(2) le by simp
        have c3: "map fst (?entry # new) = [g + 1..<final_g r + 1]"
          using new(3) le by (simp add: upt_conv_Cons)
        have c4: "list_all (\<lambda>(k, p, st). s_max st < 100 \<and> k < 1000) (butlast (?entry # new))"
          using new(4) first by simp
        from c1 c2 c3 c4 show ?thesis by blast
      qed
    qed
  qed
qed

lemma example_reevaluation:
  "assign_fitnesses
     (invalid_ind [\<lparr>alleles = [0, 0, 0], fitness = []\<rparr>, \<lparr>alleles = [0, 0, 0], fitness = []\<rparr>,
       \<lparr>alleles = [0, 0, 1], fitness = []\<rparr>, \<lparr>alleles = [0, 0, 0], fitness = [0]\<rparr>])
     ([\<lparr>alleles = [0, 0, 0], fitness = []\<rparr>, \<lparr>alleles = [0, 0, 0], fitness = []\<rparr>,
       \<lparr>alleles = [0, 0, 1], fitness = []\<rparr>, \<lparr>alleles = [0, 0, 0], fitness = [0]\<rparr>], [])
   = (example_next, [0, 1, 2])"
  by (simp add: invalid_ind_def valid_def upt_rec Let_def evalOneMax_def set_values_def
      example_next_def)

lemma example_report:
  "report 4 [0, 0, 1, 0] = Inr \<lparr>s_min = 0, s_max = 1, s_mean = 1 / 4, s_std = sqrt (3 / 16)\<rparr>"
  by (simp add: report_def Let_def powr_half_sqrt power2_eq_square)

lemma map_clone: "map clone xs = xs"
  by (induction xs) (simp_all add: clone_def)

lemma generation_eq:
  assumes "select tb pop (length pop) rng = (selected, rng1)"
      and "crossover_pass tb cxpb (child_pairs (length selected)) (selected, rng1, [])
             = (off1, rng2, mated)"
      and "mutation_pass tb mutpb [0..<length off1] (off1, rng2, []) = (off2, rng3, mutated)"
      and "assign_fitnesses (invalid_ind off2) (off2, []) = (off3, calls)"
      and "fits_of off3 = Inr fits"
      and "report (length off3) fits = Inr st"
  shows "generation tb cxpb mutpb pop rng =
           Inr \<lparr>g_pop = off3, g_fits = fits, g_stats = st, g_rng = rng3\<rparr>"
  unfolding generation_def assms(1) by (simp add: map_clone assms)

lemma example_generation:
  "generation example_toolbox CXPB MUTPB example_offspring 0 =
     Inr \<lparr>g_pop = example_next, g_fits = [0, 0, 1, 0],
          g_stats = \<lparr>s_min = 0, s_max = 1, s_mean = 1 / 4, s_std = sqrt (3 / 16)\<rparr>,
          g_rng = 6\<rparr>"
proof (rule generation_eq)
  show "select example_toolbox example_offspring (length example_offspring) 0
          = (example_offspring, 0)"
    by (simp add: example_toolbox_def example_offspring_def)
  show "crossover_pass example_toolbox CXPB (child_pairs (length example_offspring))
          (example_offspring, 0, [])
        = ([\<lparr>alleles = [1, 1, 1], fitness = []\<rparr>, \<lparr>alleles = [0, 0, 0], fitness = []\<rparr>,
            \<lparr>alleles = [1, 1, 0], fitness = [2]\<rparr>, \<lparr>alleles = [0, 0, 0], fitness = [0]\<rparr>],
           2, [0, 1])"
    by (rule example_crossover)
  have "length [\<lparr>alleles = [1, 1, 1], fitness = []\<rparr>, \<lparr>alleles = [0, 0, 0], fitness = []\<rparr>,
            \<lparr>alleles = [1, 1, 0], fitness = [2]\<rparr>, \<lparr>alleles = [0, 0, 0], fitness = [0]\<rparr>] = 4"
    by simp
  then show "mutation_pass example_toolbox MUTPB
          [0..<length [\<lparr>alleles = [1, 1, 1], fitness = []\<rparr>, \<lparr>alleles = [0, 0, 0], fitness = []\<rparr>,
            \<lparr>alleles = [1, 1, 0], fitness = [2]\<rparr>, \<lparr>alleles = [0, 0, 0], fitness = [0]\<rparr>]]
          ([\<lparr>alleles = [1, 1, 1], fitness = []\<rparr>, \<lparr>alleles = [0, 0, 0], fitness = []\<rparr>,
            \<lparr>alleles = [1, 1, 0], fitness = [2]\<rparr>, \<lparr>alleles = [0, 0, 0], fitness = [0]\<rparr>], 2, [])
        = ([\<lparr>alleles = [0, 0, 0], fitness = []\<rparr>, \<lparr>alleles = [0, 0, 0], fitness = []\<rparr>,
            \<lparr>alleles = [0, 0, 1], fitness = []\<rparr>, \<lparr>alleles = [0, 0, 0], fitness = [0]\<rparr>],
           6, [0, 2])"
    by (simp only: example_mutation)
  show "assign_fitnesses
     (invalid_ind [\<lparr>alleles = [0, 0, 0], fitness = []\<rparr>, \<lparr>alleles = [0, 0, 0], fitness = []\<rparr>,
       \<lparr>alleles = [0, 0, 1], fitness = []\<rparr>, \<lparr>alleles = [0, 0, 0], fitness = [0]\<rparr>])
     ([\<lparr>alleles = [0, 0, 0], fitness = []\<rparr>, \<lparr>alleles = [0, 0, 0], fitness = []\<rparr>,
       \<lparr>alleles = [0, 0, 1], fitness = []\<rparr>, \<lparr>alleles = [0, 0, 0], fitness = [0]\<rparr>], [])
   = (example_next, [0, 1, 2])"
    by (rule example_reevaluation)
  show "fits_of example_next = Inr [0, 0, 1, 0]"
    by (simp add: example_next_def values0_def)
  have "length example_next = 4" by (simp add: example_next_def)
  then show "report (length example_next) [0, 0, 1, 0] =
    Inr \<lparr>s_min = 0, s_max = 1, s_mean = 1 / 4, s_std = sqrt (3 / 16)\<rparr>"
    by (simp only: example_report)
qed

lemma example_evolve:
  "evolve example_toolbox CXPB MUTPB example_offspring [2, 1, 2, 0] 999 0 [] =
     Inr \<lparr>final_pop = example_next, final_fits = [0, 0, 1, 0], final_g = 1000, final_rng = 6,
          reports = [(1000, example_next,
                      \<lparr>s_min = 0, s_max = 1, s_mean = 1 / 4, s_std = sqrt (3 / 16)\<rparr>)]\<rparr>"
proof -
  have m: "py_max [2, 1, 2, 0] = Inr 2" by simp
  have m': "py_max [0, 0, 1, 0] = Inr 1" by simp
  show ?thesis
    by (simp add: evolve_step [OF m] example_generation evolve_stop [OF m'])
qed

lemma evolve_raises:
  "evolve tb cxpb mutpb pop fits g rng out = Inl e \<Longrightarrow>
   (e = ValueError \<and> fits = []) \<or> e = ZeroDivisionError"
proof (induction tb cxpb mutpb pop fits g rng out rule: evolve.induct)
  case (1 tb cxpb mutpb pop fits g rng out)
  show ?case
  proof (cases "py_max fits")
    case (Inl e')
    then have "e' = ValueError \<and> fits = []" by (cases fits) simp_all
    then show ?thesis using "1.prems" Inl by (subst (asm) evolve.simps) simp
  next
    case (Inr best)
    show ?thesis
    proof (cases "best < 100 \<and> g < 1000")
      case False
      then have "100 \<le> best \<or> 1000 \<le> g" by auto
      from evolve_stop [OF Inr this, of tb cxpb mutpb pop rng out] "1.prems"
      show ?thesis by simp
    next
      case True
      show ?thesis
      proof (cases "generation tb cxpb mutpb pop rng")
        case (Inl e')
        then have "e' = ZeroDivisionError" by (rule generation_error)
        then show ?thesis using "1.prems" Inr True Inl by (simp add: evolve_step)
      next
        case r: (Inr r)
        have "g_fits r \<noteq> []" using generation_result [OF r] by auto
        then show ?thesis
          using "1.prems" "1.IH" [OF Inr True r] Inr True r by (simp add: evolve_step)
      qed
    qed
  qed
qed

lemma initial_evaluation_valid:
  "list_all valid (map2 set_values pop0 (map evalOneMax pop0))"
  by (induction pop0) simp_all

lemma main_eq:
  assumes "population tb 300 rng0 = (pop0, rng1)"
  shows "main tb rng0 =
           evolve tb CXPB MUTPB (map2 set_values pop0 (map evalOneMax pop0))
             (map (\<lambda>ind. hd (fitness ind)) (map2 set_values pop0 (map evalOneMax pop0)))
             0 rng1 []"
  by (simp add: main_def assms Let_def fits_of_valid [OF initial_evaluation_valid])

text \<open>
  C3. The loop terminates: \<open>evolve\<close> is a total function (its counter \<open>g\<close> rises to at
  most 1000), so every run either raises or returns. A run that returns has executed at
  most 1000 generations, numbered consecutively; every generation but the last had a best
  fitness below 100 and a number below 1000, the last one has a best fitness of at least
  100 or the number 1000, and no generation runs when the condition fails at the start.
  The same holds for \<open>main\<close>, which starts the loop at generation 0.
\<close>

theorem evolution_terminates:
  "((\<exists>e. evolve tb cxpb mutpb pop fits g rng out = Inl e) \<or>
    (\<exists>r new. evolve tb cxpb mutpb pop fits g rng out = Inr r
       \<and> g \<le> final_g r \<and> final_g r \<le> max g 1000
       \<and> reports r = out @ new \<and> length new = final_g r - g \<and> length new \<le> 1000
       \<and> map fst new = [g + 1..<final_g r + 1]
       \<and> list_all (\<lambda>(k, p, st). s_max st < 100 \<and> k < 1000) (butlast new)
       \<and> (\<exists>best. py_max (final_fits r) = Inr best \<and> (100 \<le> best \<or> 1000 \<le> final_g r))
       \<and> (\<forall>best. py_max fits = Inr best \<and> (100 \<le> best \<or> 1000 \<le> g) \<longrightarrow> new = [])))
   \<and> ((\<exists>e. main tb rng0 = Inl e) \<or>
      (\<exists>r. main tb rng0 = Inr r \<and> final_g r \<le> 1000 \<and> length (reports r) = final_g r
         \<and> (\<exists>best. py_max (final_fits r) = Inr best \<and> (100 \<le> best \<or> final_g r = 1000))))"
proof -
  have loop: "(\<exists>e. evolve tb cxpb mutpb pop fits g rng out = Inl e) \<or>
    (\<exists>r new. evolve tb cxpb mutpb pop fits g rng out = Inr r
       \<and> g \<le> final_g r \<and> final_g r \<le> max g 1000
       \<and> reports r = out @ new \<and> length new = final_g r - g \<and> length new \<le> 1000
       \<and> map fst new = [g + 1..<final_g r + 1]
       \<and> list_all (\<lambda>(k, p, st). s_max st < 100 \<and> k < 1000) (butlast new)
       \<and> (\<exists>best. py_max (final_fits r) = Inr best \<and> (100 \<le> best \<or> 1000 \<le> final_g r))
       \<and> (\<forall>best. py_max fits = Inr best \<and> (100 \<le> best \<or> 1000 \<le> g) \<longrightarrow> new = []))"
    for pop fits g rng out
  proof (cases "evolve tb cxpb mutpb pop fits g rng out")
    case (Inl e)
    then show ?thesis by blast
  next
    case (Inr r)
    from evolve_counter [OF Inr]
    have c: "g \<le> final_g r" "final_g r \<le> max g 1000"
      "\<exists>best. py_max (final_fits r) = Inr best \<and> (100 \<le> best \<or> 1000 \<le> final_g r)"
      by auto
    from evolve_reports [OF Inr]
    obtain new where new: "reports r = out @ new" "length new = final_g r - g"
      "map fst new = [g + 1..<final_g r + 1]"
      "list_all (\<lambda>(k, p, st). s_max st < 100 \<and> k < 1000) (butlast new)"
      by blast
    have le: "length new \<le> 1000" using new(2) c(1) c(2) by simp
    have stop: "\<forall>best. py_max fits = Inr best \<and> (100 \<le> best \<or> 1000 \<le> g) \<longrightarrow> new = []"
    proof (intro allI impI)
      fix best assume b: "py_max fits = Inr best \<and> (100 \<le> best \<or> 1000 \<le> g)"
      then have b1: "py_max fits = Inr best" and b2: "100 \<le> best \<or> 1000 \<le> g"
        by auto
      have "evolve tb cxpb mutpb pop fits g rng out =
           Inr \<lparr>final_pop = pop, final_fits = fits, final_g = g, final_rng = rng,
                reports = out\<rparr>"
        by (rule evolve_stop [OF b1 b2])
      then have "reports r = out" using Inr by auto
      then show "new = []" using new(1) by simp
    qed
    from Inr c new le stop show ?thesis by blast
  qed
  have prog: "(\<exists>e. main tb rng0 = Inl e) \<or>
      (\<exists>r. main tb rng0 = Inr r \<and> final_g r \<le> 1000 \<and> length (reports r) = final_g r
         \<and> (\<exists>best. py_max (final_fits r) = Inr best \<and> (100 \<le> best \<or> final_g r = 1000)))"
  proof (cases "main tb rng0")
    case (Inl e)
    then show ?thesis by blast
  next
    case (Inr r)
    obtain pop0 rng1 where p: "population tb 300 rng0 = (pop0, rng1)"
      by (cases "population tb 300 rng0")
    have run: "evolve tb CXPB MUTPB (map2 set_values pop0 (map evalOneMax pop0))
             (map (\<lambda>ind. hd (fitness ind)) (map2 set_values pop0 (map evalOneMax pop0)))
             0 rng1 [] = Inr r"
      using Inr main_eq [OF p] by simp
    from evolve_counter [OF run] evolve_reports [OF run]
    show ?thesis using Inr by auto
  qed
  from loop prog show ?thesis by blast
qed

theorem evolution_terminates_witness:
  "evolve example_toolbox CXPB MUTPB example_offspring [2, 1, 2, 0] 999 0 [] =
     Inr \<lparr>final_pop = example_next, final_fits = [0, 0, 1, 0], final_g = 1000, final_rng = 6,
          reports = [(1000, example_next,
                      \<lparr>s_min = 0, s_max = 1, s_mean = 1 / 4, s_std = sqrt (3 / 16)\<rparr>)]\<rparr>
   \<and> (999::nat) \<le> 1000 \<and> (1000::nat) \<le> max 999 1000
   \<and> py_max [0, 0, 1, 0] = Inr 1 \<and> (1000::nat) \<le> 1000"
  using evolution_terminates
    [of example_toolbox CXPB MUTPB example_offspring "[2, 1, 2, 0]" 999 0 "[]" 0]
    example_evolve
  by simp




subsection \<open>Determinism\<close>

lemma crossover_pass_same_draws:
  assumes "same_draws R tb1 tb2" and "R a b"
  shows "\<exists>off' a' b' log.
           crossover_pass tb1 cxpb ps (off, a, m) = (off', a', log)
         \<and> crossover_pass tb2 cxpb ps (off, b, m) = (off', b', log) \<and> R a' b'"
  using assms(2)
proof (induction ps arbitrary: off a b m)
  case Nil
  then show ?case by simp
next
  case (Cons p ps)
  obtain i j where p: "p = (i, j)" by (cases p)
  obtain u a1 where u1: "random_random tb1 a = (u, a1)" by (cases "random_random tb1 a")
  obtain u' b1 where u2: "random_random tb2 b = (u', b1)" by (cases "random_random tb2 b")
  have uu: "u' = u" and r1: "R a1 b1"
    using assms(1) Cons.prems u1 u2 unfolding same_draws_def by (metis fst_conv snd_conv)+
  show ?case
  proof (cases "u < cxpb")
    case False
    then show ?thesis using Cons.IH [OF r1, of off m] p u1 u2 uu by simp
  next
    case True
    obtain c a2 where m1: "mate tb1 (off ! i) (off ! j) a1 = (c, a2)"
      by (cases "mate tb1 (off ! i) (off ! j) a1")
    obtain c' b2 where m2: "mate tb2 (off ! i) (off ! j) b1 = (c', b2)"
      by (cases "mate tb2 (off ! i) (off ! j) b1")
    have cc: "c' = c" and r2: "R a2 b2"
      using assms(1) r1 m1 m2 unfolding same_draws_def by (metis fst_conv snd_conv)+
    obtain c1 c2 where c: "c = (c1, c2)" by (cases c)
    show ?thesis
      using Cons.IH [OF r2, of "off[i := del_values c1, j := del_values c2]" "m @ [i, j]"]
        p u1 u2 uu True m1 m2 cc c
      by simp
  qed
qed

lemma mutation_pass_same_draws:
  assumes "same_draws R tb1 tb2" and "R a b"
  shows "\<exists>off' a' b' log.
           mutation_pass tb1 mutpb is (off, a, m) = (off', a', log)
         \<and> mutation_pass tb2 mutpb is (off, b, m) = (off', b', log) \<and> R a' b'"
  using assms(2)
proof (induction "is" arbitrary: off a b m)
  case Nil
  then show ?case by simp
next
  case (Cons i rest)
  obtain u a1 where u1: "random_random tb1 a = (u, a1)" by (cases "random_random tb1 a")
  obtain u' b1 where u2: "random_random tb2 b = (u', b1)" by (cases "random_random tb2 b")
  have uu: "u' = u" and r1: "R a1 b1"
    using assms(1) Cons.prems u1 u2 unfolding same_draws_def by (metis fst_conv snd_conv)+
  show ?case
  proof (cases "u < mutpb")
    case False
    then show ?thesis using Cons.IH [OF r1, of off m] u1 u2 uu by simp
  next
    case True
    obtain c a2 where m1: "mutate tb1 (off ! i) a1 = (c, a2)"
      by (cases "mutate tb1 (off ! i) a1")
    obtain c' b2 where m2: "mutate tb2 (off ! i) b1 = (c', b2)"
      by (cases "mutate tb2 (off ! i) b1")
    have cc: "c' = c" and r2: "R a2 b2"
      using assms(1) r1 m1 m2 unfolding same_draws_def by (metis fst_conv snd_conv)+
    show ?thesis
      using Cons.IH [OF r2, of "off[i := del_values c]" "m @ [i]"]
        u1 u2 uu True m1 m2 cc
      by simp
  qed
qed

lemma generation_unfold:
  assumes "select tb pop (length pop) rng = (selected, rng1)"
      and "crossover_pass tb cxpb (child_pairs (length selected)) (selected, rng1, [])
             = (off1, rng2, mated)"
      and "mutation_pass tb mutpb [0..<length off1] (off1, rng2, []) = (off2, rng3, mutated)"
  shows "generation tb cxpb mutpb pop rng =
           (case fits_of (fst (assign_fitnesses (invalid_ind off2) (off2, []))) of
              Inl e \<Rightarrow> Inl e
            | Inr fits \<Rightarrow>
                (case report (length (fst (assign_fitnesses (invalid_ind off2) (off2, [])))) fits of
                   Inl e \<Rightarrow> Inl e
                 | Inr st \<Rightarrow>
                     Inr \<lparr>g_pop = fst (assign_fitnesses (invalid_ind off2) (off2, [])),
                          g_fits = fits, g_stats = st, g_rng = rng3\<rparr>))"
proof -
  obtain off3 calls where a: "assign_fitnesses (invalid_ind off2) (off2, []) = (off3, calls)"
    by (cases "assign_fitnesses (invalid_ind off2) (off2, [])")
  show ?thesis
    unfolding generation_def assms(1) by (simp add: map_clone assms a split: sum.splits)
qed

lemma generation_same_draws:
  assumes "same_draws R tb1 tb2" and "R a b"
  shows "(\<exists>e. generation tb1 cxpb mutpb pop a = Inl e
             \<and> generation tb2 cxpb mutpb pop b = Inl e)
       \<or> (\<exists>r1 r2. generation tb1 cxpb mutpb pop a = Inr r1
             \<and> generation tb2 cxpb mutpb pop b = Inr r2
             \<and> g_pop r1 = g_pop r2 \<and> g_fits r1 = g_fits r2 \<and> g_stats r1 = g_stats r2
             \<and> R (g_rng r1) (g_rng r2))"
proof -
  obtain sel a1 where s1: "select tb1 pop (length pop) a = (sel, a1)"
    by (cases "select tb1 pop (length pop) a")
  obtain sel' b1 where s2: "select tb2 pop (length pop) b = (sel', b1)"
    by (cases "select tb2 pop (length pop) b")
  have ss: "sel' = sel" and r1: "R a1 b1"
    using assms s1 s2 unfolding same_draws_def by (metis fst_conv snd_conv)+
  obtain off1 a2 b2 mated where
    c1: "crossover_pass tb1 cxpb (child_pairs (length sel)) (sel, a1, []) = (off1, a2, mated)"
    and c2: "crossover_pass tb2 cxpb (child_pairs (length sel)) (sel, b1, []) = (off1, b2, mated)"
    and r2: "R a2 b2"
    using crossover_pass_same_draws [OF assms(1) r1] by blast
  obtain off2 a3 b3 mutated where
    m1: "mutation_pass tb1 mutpb [0..<length off1] (off1, a2, []) = (off2, a3, mutated)"
    and m2: "mutation_pass tb2 mutpb [0..<length off1] (off1, b2, []) = (off2, b3, mutated)"
    and r3: "R a3 b3"
    using mutation_pass_same_draws [OF assms(1) r2] by blast
  let ?off3 = "fst (assign_fitnesses (invalid_ind off2) (off2, []))"
  note g1 = generation_unfold [OF s1 c1 m1]
  note g2 = generation_unfold [OF s2 [unfolded ss] c2 m2]
  show ?thesis
  proof (cases "fits_of ?off3")
    case (Inl e)
    then show ?thesis using g1 g2 by simp
  next
    case (Inr fits)
    show ?thesis
    proof (cases "report (length ?off3) fits")
      case (Inl e)
      then show ?thesis using g1 g2 Inr by simp
    next
      case st: (Inr st)
      then show ?thesis using g1 g2 Inr r3 by simp
    qed
  qed
qed

lemma evolve_same_draws:
  assumes "same_draws R tb1 tb2" and "R a b"
  shows "(\<exists>e. evolve tb1 cxpb mutpb pop fits g a out = Inl e
             \<and> evolve tb2 cxpb mutpb pop fits g b out = Inl e)
       \<or> (\<exists>r1 r2. evolve tb1 cxpb mutpb pop fits g a out = Inr r1
             \<and> evolve tb2 cxpb mutpb pop fits g b out = Inr r2
             \<and> final_pop r1 = final_pop r2 \<and> final_fits r1 = final_fits r2
             \<and> final_g r1 = final_g r2 \<and> reports r1 = reports r2
             \<and> R (final_rng r1) (final_rng r2))"
  using assms
proof (induction tb1 cxpb mutpb pop fits g a out arbitrary: b rule: evolve.induct)
  case (1 tb1 cxpb mutpb pop fits g a out)
  show ?case
  proof (cases "py_max fits")
    case (Inl e)
    have "evolve tb1 cxpb mutpb pop fits g a out = Inl e"
      "evolve tb2 cxpb mutpb pop fits g b out = Inl e"
      using Inl by (subst evolve.simps, simp)+
    then show ?thesis by simp
  next
    case (Inr best)
    show ?thesis
    proof (cases "best < 100 \<and> g < 1000")
      case False
      then have stop: "100 \<le> best \<or> 1000 \<le> g" by auto
      show ?thesis
        using evolve_stop [OF Inr stop, of tb1 cxpb mutpb pop a out]
          evolve_stop [OF Inr stop, of tb2 cxpb mutpb pop b out] "1.prems"(2)
        by simp
    next
      case True
      then have b100: "best < 100" and g1000: "g < 1000" by simp_all
      note e1 = evolve_step [OF Inr b100 g1000, of tb1 cxpb mutpb pop a out]
      note e2 = evolve_step [OF Inr b100 g1000, of tb2 cxpb mutpb pop b out]
      from generation_same_draws [OF "1.prems", of cxpb mutpb pop]
      show ?thesis
      proof (elim disjE exE conjE)
        fix e
        assume "generation tb1 cxpb mutpb pop a = Inl e" "generation tb2 cxpb mutpb pop b = Inl e"
        then show ?thesis using e1 e2 by simp
      next
        fix r1 r2
        assume g: "generation tb1 cxpb mutpb pop a = Inr r1"
          "generation tb2 cxpb mutpb pop b = Inr r2"
          and eq: "g_pop r1 = g_pop r2" "g_fits r1 = g_fits r2" "g_stats r1 = g_stats r2"
          and r: "R (g_rng r1) (g_rng r2)"
        from "1.IH" [OF Inr True g(1) "1.prems"(1) r]
        show ?thesis using e1 e2 g eq by simp
      qed
    qed
  qed
qed

lemma same_draws_refl: "same_draws (=) tb tb"
  by (simp add: same_draws_def)

text \<open>
  C9. Two runs of the loop with the same CXPB and MUTPB, started from the same population
  and generation number, whose random generators deliver the same draws, end alike: both
  raise the same exception, or both return the same final population and fitness values,
  the same number of generations and the same populations and statistics for every
  generation. By \<open>same_draws_refl\<close> this covers two runs with one toolbox from one seed.
\<close>

theorem evolution_deterministic:
  assumes "same_draws R tb1 tb2" and "R rng1 rng2"
  shows "(\<exists>e. evolve tb1 cxpb mutpb pop fits g rng1 out = Inl e
             \<and> evolve tb2 cxpb mutpb pop fits g rng2 out = Inl e)
       \<or> (\<exists>r1 r2. evolve tb1 cxpb mutpb pop fits g rng1 out = Inr r1
             \<and> evolve tb2 cxpb mutpb pop fits g rng2 out = Inr r2
             \<and> final_pop r1 = final_pop r2 \<and> final_fits r1 = final_fits r2
             \<and> final_g r1 = final_g r2 \<and> reports r1 = reports r2
             \<and> R (final_rng r1) (final_rng r2))"
  using assms by (rule evolve_same_draws)

theorem evolution_deterministic_witness:
  "same_draws (\<lambda>n b. even n = b) example_toolbox parity_toolbox
   \<and> even (0::nat) = True
   \<and> evolve example_toolbox CXPB MUTPB example_offspring [2, 1, 2, 0] 999 0 [] =
     Inr \<lparr>final_pop = example_next, final_fits = [0, 0, 1, 0], final_g = 1000, final_rng = 6,
          reports = [(1000, example_next,
                      \<lparr>s_min = 0, s_max = 1, s_mean = 1 / 4, s_std = sqrt (3 / 16)\<rparr>)]\<rparr>
   \<and> evolve parity_toolbox CXPB MUTPB example_offspring [2, 1, 2, 0] 999 True [] =
     Inr \<lparr>final_pop = example_next, final_fits = [0, 0, 1, 0], final_g = 1000,
          final_rng = True,
          reports = [(1000, example_next,
                      \<lparr>s_min = 0, s_max = 1, s_mean = 1 / 4, s_std = sqrt (3 / 16)\<rparr>)]\<rparr>"
proof -
  have sd: "same_draws (\<lambda>n b. even n = b) example_toolbox parity_toolbox"
    by (simp add: same_draws_def example_toolbox_def parity_toolbox_def)
  have r0: "even (0::nat) = True" by simp
  have "\<exists>r2. evolve parity_toolbox CXPB MUTPB example_offspring [2, 1, 2, 0] 999 True []
                        = Inr r2
    \<and> final_pop r2 = example_next \<and> final_fits r2 = [0, 0, 1, 0] \<and> final_g r2 = 1000
    \<and> reports r2 = [(1000, example_next,
                      \<lparr>s_min = 0, s_max = 1, s_mean = 1 / 4, s_std = sqrt (3 / 16)\<rparr>)]
    \<and> final_rng r2 = True"
    using evolution_deterministic
      [OF sd r0, of CXPB MUTPB example_offspring "[2, 1, 2, 0]" 999 "[]"]
    by (simp add: example_evolve eq_commute)
  then obtain r2 where r2: "evolve parity_toolbox CXPB MUTPB example_offspring [2, 1, 2, 0] 999 True []
                        = Inr r2"
    "final_pop r2 = example_next" "final_fits r2 = [0, 0, 1, 0]" "final_g r2 = 1000"
    "reports r2 = [(1000, example_next,
                      \<lparr>s_min = 0, s_max = 1, s_mean = 1 / 4, s_std = sqrt (3 / 16)\<rparr>)]"
    "final_rng r2 = True"
    by blast
  have "r2 = \<lparr>final_pop = example_next, final_fits = [0, 0, 1, 0], final_g = 1000,
          final_rng = True,
          reports = [(1000, example_next,
                      \<lparr>s_min = 0, s_max = 1, s_mean = 1 / 4, s_std = sqrt (3 / 16)\<rparr>)]\<rparr>"
    using r2(2-6) by (cases r2) simp
  then show ?thesis using sd r2(1) example_evolve by simp
qed

subsection \<open>Two-point crossover\<close>

lemma in_cx_points: "(i, j) \<in> set (cx_points N) \<longleftrightarrow> i < j \<and> j \<le> N"
proof -
  have "(i, j) \<in> set (cx_points N)
        \<longleftrightarrow> (\<exists>x<N. (i, j) \<in> Pair x ` {x + 1..<N + 1})"
    unfolding cx_points_def by (simp del: upt_Suc add: Bex_def)
  also have "\<dots> \<longleftrightarrow> i < N \<and> j \<in> {i + 1..<N + 1}"
    by blast
  also have "\<dots> \<longleftrightarrow> i < j \<and> j \<le> N"
    by auto
  finally show ?thesis .
qed

lemma set_cx_points: "set (cx_points N) = {(i, j). i < j \<and> j \<le> N}"
  using in_cx_points by auto

lemma distinct_cx_points: "distinct (cx_points N)"
  unfolding cx_points_def
proof (rule distinct_concat)
  show "distinct (map (\<lambda>i. map (Pair i) [i + 1..<N + 1]) [0..<N])"
    by (auto simp add: distinct_map inj_on_def)
next
  fix ys assume "ys \<in> set (map (\<lambda>i. map (Pair i) [i + 1..<N + 1]) [0..<N])"
  then show "distinct ys" by (auto simp add: distinct_map inj_on_def)
next
  fix ys zs
  assume "ys \<in> set (map (\<lambda>i. map (Pair i) [i + 1..<N + 1]) [0..<N])"
    "zs \<in> set (map (\<lambda>i. map (Pair i) [i + 1..<N + 1]) [0..<N])" "ys \<noteq> zs"
  then show "set ys \<inter> set zs = {}" by auto
qed

lemma swap_range_nth:
  assumes "i < j" and "j \<le> length xs" and "length ys = length xs" and "k < length xs"
  shows "fst (swap_range i j xs ys) ! k = (if i \<le> k \<and> k < j then ys ! k else xs ! k)"
    and "snd (swap_range i j xs ys) ! k = (if i \<le> k \<and> k < j then xs ! k else ys ! k)"
  using assms by (auto simp add: swap_range_def nth_append min_def)

lemma swap_range_length:
  assumes "i < j" and "j \<le> length xs" and "length ys = length xs"
  shows "length (fst (swap_range i j xs ys)) = length xs"
    and "length (snd (swap_range i j xs ys)) = length xs"
  using assms by (auto simp add: swap_range_def)

text \<open>
  C7. The outcomes of the draw are the pairs \<open>(i, j)\<close> with \<open>i < j \<le> N\<close>, each listed once.
  For every such pair and two genomes of length \<open>N\<close>, the crossover keeps both lengths and
  both fitness values and exchanges the alleles at the positions \<open>i \<le> k < j\<close>, leaving the
  others; with the points (2, 5), \<open>[0,0,0,0,0,0]\<close> and \<open>[1,1,1,1,1,1]\<close> become
  \<open>[0,0,1,1,1,0]\<close> and \<open>[1,1,0,0,0,1]\<close>.
\<close>

theorem two_point_crossover:
  "set (cx_points N) = {(i, j). i < j \<and> j \<le> N} \<and> distinct (cx_points N)
   \<and> (\<forall>p\<in>set (cx_points N).
         length (alleles ind1) = N \<and> length (alleles ind2) = N \<longrightarrow>
         length (alleles (fst (cxTwoPoint p ind1 ind2))) = N
       \<and> length (alleles (snd (cxTwoPoint p ind1 ind2))) = N
       \<and> fitness (fst (cxTwoPoint p ind1 ind2)) = fitness ind1
       \<and> fitness (snd (cxTwoPoint p ind1 ind2)) = fitness ind2
       \<and> (\<forall>k<N. alleles (fst (cxTwoPoint p ind1 ind2)) ! k =
                   (if fst p \<le> k \<and> k < snd p then alleles ind2 ! k else alleles ind1 ! k)
                \<and> alleles (snd (cxTwoPoint p ind1 ind2)) ! k =
                   (if fst p \<le> k \<and> k < snd p then alleles ind1 ! k else alleles ind2 ! k)))
   \<and> cxTwoPoint (2, 5) \<lparr>alleles = [0, 0, 0, 0, 0, 0], fitness = f1\<rparr>
                        \<lparr>alleles = [1, 1, 1, 1, 1, 1], fitness = f2\<rparr>
       = (\<lparr>alleles = [0, 0, 1, 1, 1, 0], fitness = f1\<rparr>,
          \<lparr>alleles = [1, 1, 0, 0, 0, 1], fitness = f2\<rparr>)"
proof -
  have swap: "length (alleles ind1) = N \<and> length (alleles ind2) = N \<longrightarrow>
         length (alleles (fst (cxTwoPoint p ind1 ind2))) = N
       \<and> length (alleles (snd (cxTwoPoint p ind1 ind2))) = N
       \<and> fitness (fst (cxTwoPoint p ind1 ind2)) = fitness ind1
       \<and> fitness (snd (cxTwoPoint p ind1 ind2)) = fitness ind2
       \<and> (\<forall>k<N. alleles (fst (cxTwoPoint p ind1 ind2)) ! k =
                   (if fst p \<le> k \<and> k < snd p then alleles ind2 ! k else alleles ind1 ! k)
                \<and> alleles (snd (cxTwoPoint p ind1 ind2)) ! k =
                   (if fst p \<le> k \<and> k < snd p then alleles ind1 ! k else alleles ind2 ! k))"
    if p: "p \<in> set (cx_points N)" for p
  proof
    assume len: "length (alleles ind1) = N \<and> length (alleles ind2) = N"
    obtain i j where ij: "p = (i, j)" by (cases p)
    have b: "i < j" "j \<le> length (alleles ind1)" "length (alleles ind2) = length (alleles ind1)"
      using p ij len by (simp_all add: in_cx_points)
    obtain xs ys where s: "swap_range i j (alleles ind1) (alleles ind2) = (xs, ys)"
      by (cases "swap_range i j (alleles ind1) (alleles ind2)")
    have c: "cxTwoPoint (i, j) ind1 ind2 = (ind1\<lparr>alleles := xs\<rparr>, ind2\<lparr>alleles := ys\<rparr>)"
      by (simp add: cxTwoPoint_def s)
    have l: "length xs = N" "length ys = N"
      using swap_range_length [OF b] s len by simp_all
    have n: "\<forall>k<N. xs ! k = (if i \<le> k \<and> k < j then alleles ind2 ! k else alleles ind1 ! k)
                 \<and> ys ! k = (if i \<le> k \<and> k < j then alleles ind1 ! k else alleles ind2 ! k)"
      using swap_range_nth [OF b] s len by simp
    show "length (alleles (fst (cxTwoPoint p ind1 ind2))) = N
       \<and> length (alleles (snd (cxTwoPoint p ind1 ind2))) = N
       \<and> fitness (fst (cxTwoPoint p ind1 ind2)) = fitness ind1
       \<and> fitness (snd (cxTwoPoint p ind1 ind2)) = fitness ind2
       \<and> (\<forall>k<N. alleles (fst (cxTwoPoint p ind1 ind2)) ! k =
                   (if fst p \<le> k \<and> k < snd p then alleles ind2 ! k else alleles ind1 ! k)
                \<and> alleles (snd (cxTwoPoint p ind1 ind2)) ! k =
                   (if fst p \<le> k \<and> k < snd p then alleles ind1 ! k else alleles ind2 ! k))"
      using l n by (simp add: c ij)
  qed
  have ex: "cxTwoPoint (2, 5) \<lparr>alleles = [0, 0, 0, 0, 0, 0], fitness = f1\<rparr>
                        \<lparr>alleles = [1, 1, 1, 1, 1, 1], fitness = f2\<rparr>
       = (\<lparr>alleles = [0, 0, 1, 1, 1, 0], fitness = f1\<rparr>,
          \<lparr>alleles = [1, 1, 0, 0, 0, 1], fitness = f2\<rparr>)"
    by (simp add: cxTwoPoint_def swap_range_def)
  from set_cx_points distinct_cx_points swap ex show ?thesis by blast
qed

theorem two_point_crossover_witness:
  "cx_points 3 = [(0, 1), (0, 2), (0, 3), (1, 2), (1, 3), (2, 3)]
   \<and> (1, 3) \<in> set (cx_points 3)
   \<and> length (alleles \<lparr>alleles = [1, 0, 1], fitness = [2]\<rparr>) = 3
   \<and> length (alleles \<lparr>alleles = [0, 1, 0], fitness = [1]\<rparr>) = 3
   \<and> cxTwoPoint (1, 3) \<lparr>alleles = [1, 0, 1], fitness = [2]\<rparr> \<lparr>alleles = [0, 1, 0], fitness = [1]\<rparr>
       = (\<lparr>alleles = [1, 1, 0], fitness = [2]\<rparr>, \<lparr>alleles = [0, 0, 1], fitness = [1]\<rparr>)
   \<and> distinct (cx_points 3)"
proof -
  have p: "cx_points 3 = [(0, 1), (0, 2), (0, 3), (1, 2), (1, 3), (2, 3)]"
    by (simp add: cx_points_def upt_rec)
  have c: "cxTwoPoint (1, 3) \<lparr>alleles = [1, 0, 1], fitness = [2]\<rparr> \<lparr>alleles = [0, 1, 0], fitness = [1]\<rparr>
       = (\<lparr>alleles = [1, 1, 0], fitness = [2]\<rparr>, \<lparr>alleles = [0, 0, 1], fitness = [1]\<rparr>)"
    by (simp add: cxTwoPoint_def swap_range_def)
  show ?thesis
    using two_point_crossover
      [of 3 "\<lparr>alleles = [1, 0, 1], fitness = [2]\<rparr>" "\<lparr>alleles = [0, 1, 0], fitness = [1]\<rparr>"]
      p c
    by simp
qed

subsection \<open>Cloning\<close>

lemma clone_all_shape:
  assumes "wf_store h" and "\<forall>a\<in>set refs. a < length (genomes h)"
      and "clone_all h refs = (refs', h')"
  shows "length (genomes h') = length (genomes h) + length refs
       \<and> length (fit_objs h') = length (fit_objs h) + length refs
       \<and> refs' = [length (genomes h)..<length (genomes h) + length refs]
       \<and> (\<forall>a<length (genomes h). genomes h' ! a = genomes h ! a)
       \<and> (\<forall>f<length (fit_objs h). fit_objs h' ! f = fit_objs h ! f)
       \<and> (\<forall>k<length refs.
             genomes h' ! (length (genomes h) + k)
               = (fst (genomes h ! (refs ! k)), length (fit_objs h) + k)
           \<and> fit_objs h' ! (length (fit_objs h) + k)
               = fit_objs h ! snd (genomes h ! (refs ! k)))"
  using assms
proof (induction refs arbitrary: h refs' h')
  case Nil
  then show ?case by simp
next
  case (Cons a rest)
  let ?n = "length (genomes h)" and ?m = "length (fit_objs h)"
  obtain xs f where g: "genomes h ! a = (xs, f)" by (cases "genomes h ! a")
  define h1 where "h1 = h\<lparr>genomes := genomes h @ [(xs, ?m)],
                            fit_objs := fit_objs h @ [fit_objs h ! f]\<rparr>"
  have c: "clone_ref h a = (?n, h1)" by (simp add: clone_ref_def g h1_def)
  obtain rest' where r: "clone_all h1 rest = (rest', h')" and refs': "refs' = ?n # rest'"
    using Cons.prems(3) c by (auto split: prod.splits)
  have a: "a < ?n" using Cons.prems(2) by simp
  have f: "f < ?m" using Cons.prems(1) a g
    by (auto simp add: wf_store_def list_all_length)
  have wf1: "wf_store h1"
    using Cons.prems(1) by (auto simp add: wf_store_def h1_def list_all_length nth_append)
  have l1: "length (genomes h1) = Suc ?n" "length (fit_objs h1) = Suc ?m"
    by (simp_all add: h1_def)
  have b1: "\<forall>a\<in>set rest. a < length (genomes h1)"
    using Cons.prems(2) l1 by auto
  from Cons.IH [OF wf1 b1 r]
  have ih: "length (genomes h') = Suc ?n + length rest"
    "length (fit_objs h') = Suc ?m + length rest"
    "rest' = [Suc ?n..<Suc ?n + length rest]"
    "\<forall>a<Suc ?n. genomes h' ! a = genomes h1 ! a"
    "\<forall>f<Suc ?m. fit_objs h' ! f = fit_objs h1 ! f"
    "\<forall>k<length rest.
        genomes h' ! (Suc ?n + k) = (fst (genomes h1 ! (rest ! k)), Suc ?m + k)
      \<and> fit_objs h' ! (Suc ?m + k) = fit_objs h1 ! snd (genomes h1 ! (rest ! k))"
    unfolding l1 by blast+
  have old_g: "genomes h1 ! b = genomes h ! b" if "b < ?n" for b
    using that by (simp add: h1_def nth_append)
  have old_f: "fit_objs h1 ! b = fit_objs h ! b" if "b < ?m" for b
    using that by (simp add: h1_def nth_append)
  have new_g: "genomes h1 ! ?n = (xs, ?m)" by (simp add: h1_def)
  have new_f: "fit_objs h1 ! ?m = fit_objs h ! f" by (simp add: h1_def)
  have c1: "length (genomes h') = ?n + length (a # rest)" using ih(1) by simp
  have c2: "length (fit_objs h') = ?m + length (a # rest)" using ih(2) by simp
  have "[?n..<Suc ?n + length rest] = ?n # [Suc ?n..<Suc ?n + length rest]"
    by (rule upt_conv_Cons) simp
  then have c3: "refs' = [?n..<?n + length (a # rest)]"
    using refs' ih(3) by (simp del: upt_Suc)
  have c4: "\<forall>b<?n. genomes h' ! b = genomes h ! b" using ih(4) old_g by simp
  have c5: "\<forall>b<?m. fit_objs h' ! b = fit_objs h ! b" using ih(5) old_f by simp
  have c6: "genomes h' ! (?n + k) = (fst (genomes h ! ((a # rest) ! k)), ?m + k)
          \<and> fit_objs h' ! (?m + k) = fit_objs h ! snd (genomes h ! ((a # rest) ! k))"
    if k: "k < length (a # rest)" for k
  proof (cases k)
    case 0
    then show ?thesis using ih(4) ih(5) new_g new_f g by simp
  next
    case (Suc k')
    then have k': "k' < length rest" using k by simp
    then have "rest ! k' < ?n" using Cons.prems(2) by simp
    then have o: "genomes h1 ! (rest ! k') = genomes h ! (rest ! k')" by (rule old_g)
    have "snd (genomes h ! (rest ! k')) < ?m"
      using Cons.prems(1) \<open>rest ! k' < ?n\<close> by (simp add: wf_store_def list_all_length)
    then have o2: "fit_objs h1 ! snd (genomes h ! (rest ! k'))
                     = fit_objs h ! snd (genomes h ! (rest ! k'))" by (rule old_f)
    show ?thesis using ih(6) k' Suc o o2 by simp
  qed
  from c1 c2 c3 c4 c5 c6 show ?case by blast
qed

lemma write_allele_other: "a \<noteq> b \<Longrightarrow> deref (write_allele h a i v) b = deref h b"
  by (cases "genomes h ! a") (simp add: write_allele_def deref_def)

lemma write_fitness_other:
  "snd (genomes h ! a) \<noteq> snd (genomes h ! b) \<Longrightarrow> deref (write_fitness h a vs) b = deref h b"
  by (cases "genomes h ! a"; cases "genomes h ! b") (simp add: write_fitness_def deref_def)

lemma write_allele_self:
  "a < length (genomes h) \<Longrightarrow>
   deref (write_allele h a i v) a = (deref h a)\<lparr>alleles := (alleles (deref h a))[i := v]\<rparr>"
  by (cases "genomes h ! a") (simp add: write_allele_def deref_def)

lemma write_fitness_self:
  "snd (genomes h ! a) < length (fit_objs h) \<Longrightarrow>
   deref (write_fitness h a vs) a = (deref h a)\<lparr>fitness := vs\<rparr>"
  by (cases "genomes h ! a") (simp add: write_fitness_def deref_def)

text \<open>
  C5. Cloning a list of references, in which one individual may occur several times,
  yields as many new, pairwise distinct references; each clone denotes an individual
  equal to its original, and the originals are unchanged. A write to the alleles or to
  the fitness values through a clone changes that clone and no other object of the store,
  neither an original nor another clone, and a write through any other object leaves the
  clone unchanged.
\<close>

theorem clone_independent:
  assumes "wf_store h" and "\<forall>a\<in>set refs. a < length (genomes h)"
      and "clone_all h refs = (refs', h')"
  shows "length refs' = length refs \<and> distinct refs'
       \<and> map (deref h') refs' = map (deref h) refs
       \<and> (\<forall>a<length (genomes h). deref h' a = deref h a \<and> a \<notin> set refs')
       \<and> (\<forall>c\<in>set refs'.
             (\<forall>i v. deref (write_allele h' c i v) c
                      = (deref h' c)\<lparr>alleles := (alleles (deref h' c))[i := v]\<rparr>)
           \<and> (\<forall>vs. deref (write_fitness h' c vs) c = (deref h' c)\<lparr>fitness := vs\<rparr>)
           \<and> (\<forall>b<length (genomes h'). b \<noteq> c \<longrightarrow>
                 (\<forall>i v. deref (write_allele h' c i v) b = deref h' b)
               \<and> (\<forall>vs. deref (write_fitness h' c vs) b = deref h' b)
               \<and> (\<forall>i v. deref (write_allele h' b i v) c = deref h' c)
               \<and> (\<forall>vs. deref (write_fitness h' b vs) c = deref h' c)))"
proof -
  let ?n = "length (genomes h)" and ?m = "length (fit_objs h)" and ?L = "length refs"
  from clone_all_shape [OF assms]
  have sh: "length (genomes h') = ?n + ?L" "length (fit_objs h') = ?m + ?L"
    "refs' = [?n..<?n + ?L]"
    "\<forall>a<?n. genomes h' ! a = genomes h ! a"
    "\<forall>f<?m. fit_objs h' ! f = fit_objs h ! f"
    "\<forall>k<?L. genomes h' ! (?n + k) = (fst (genomes h ! (refs ! k)), ?m + k)
          \<and> fit_objs h' ! (?m + k) = fit_objs h ! snd (genomes h ! (refs ! k))"
    by blast+
  have wf: "snd (genomes h ! a) < ?m" if "a < ?n" for a
    using assms(1) that by (simp add: wf_store_def list_all_length)
  have old: "deref h' a = deref h a" if a: "a < ?n" for a
  proof -
    obtain xs f where g: "genomes h ! a = (xs, f)" by (cases "genomes h ! a")
    then have "f < ?m" using wf [OF a] by simp
    then show ?thesis using sh(4) sh(5) a g by (simp add: deref_def)
  qed
  have new: "deref h' (?n + k) = deref h (refs ! k)" if k: "k < ?L" for k
  proof -
    obtain xs f where g: "genomes h ! (refs ! k) = (xs, f)" by (cases "genomes h ! (refs ! k)")
    show ?thesis using sh(6) k g by (simp add: deref_def)
  qed
  have c1: "length refs' = ?L" "distinct refs'" using sh(3) by simp_all
  have c2: "map (deref h') refs' = map (deref h) refs"
    by (rule nth_equalityI) (simp_all add: sh(3) new)
  have c3: "\<forall>a<?n. deref h' a = deref h a \<and> a \<notin> set refs'"
    using old sh(3) by simp
  have addr: "snd (genomes h' ! b) < ?m + ?L" if "b < ?n + ?L" for b
  proof (cases "b < ?n")
    case True
    then show ?thesis using sh(4) wf [OF True] by simp
  next
    case False
    then have "?n \<le> b" by simp
    then obtain k where kb: "b = ?n + k" by (auto simp add: le_iff_add)
    then have "k < ?L" using that by simp
    then show ?thesis using sh(6) kb by simp
  qed
  have sep: "snd (genomes h' ! b) \<noteq> snd (genomes h' ! (?n + k))"
    if k: "k < ?L" and b: "b < ?n + ?L" and ne: "b \<noteq> ?n + k" for b k
  proof (cases "b < ?n")
    case True
    then show ?thesis using sh(4) sh(6) wf [OF True] k by simp
  next
    case False
    then have "?n \<le> b" by simp
    then obtain k' where kb: "b = ?n + k'" by (auto simp add: le_iff_add)
    then have "k' < ?L" "k' \<noteq> k" using b ne by simp_all
    then show ?thesis using sh(6) k kb by simp
  qed
  have c4: "(\<forall>i v. deref (write_allele h' c i v) c
                      = (deref h' c)\<lparr>alleles := (alleles (deref h' c))[i := v]\<rparr>)
           \<and> (\<forall>vs. deref (write_fitness h' c vs) c = (deref h' c)\<lparr>fitness := vs\<rparr>)
           \<and> (\<forall>b<length (genomes h'). b \<noteq> c \<longrightarrow>
                 (\<forall>i v. deref (write_allele h' c i v) b = deref h' b)
               \<and> (\<forall>vs. deref (write_fitness h' c vs) b = deref h' b)
               \<and> (\<forall>i v. deref (write_allele h' b i v) c = deref h' c)
               \<and> (\<forall>vs. deref (write_fitness h' b vs) c = deref h' c))"
    if c: "c \<in> set refs'" for c
  proof -
    obtain k where k: "c = ?n + k" "k < ?L"
      using c sh(3) by (auto simp add: le_iff_add)
    have cl: "c < length (genomes h')" using k sh(1) by simp
    have ca: "snd (genomes h' ! c) < length (fit_objs h')"
      using addr [of c] cl sh(1) sh(2) by simp
    have others: "(\<forall>i v. deref (write_allele h' c i v) b = deref h' b)
               \<and> (\<forall>vs. deref (write_fitness h' c vs) b = deref h' b)
               \<and> (\<forall>i v. deref (write_allele h' b i v) c = deref h' c)
               \<and> (\<forall>vs. deref (write_fitness h' b vs) c = deref h' c)"
      if b: "b < length (genomes h')" and ne: "b \<noteq> c" for b
    proof -
      have s: "snd (genomes h' ! b) \<noteq> snd (genomes h' ! c)"
        using sep [OF k(2), of b] b ne k(1) sh(1) by simp
      have s': "snd (genomes h' ! c) \<noteq> snd (genomes h' ! b)" using s by simp
      have ne': "c \<noteq> b" using ne by simp
      show ?thesis
        by (simp add: write_allele_other [OF ne'] write_allele_other [OF ne]
            write_fitness_other [OF s'] write_fitness_other [OF s])
    qed
    show ?thesis
    proof (intro conjI allI impI)
      fix i v show "deref (write_allele h' c i v) c
                      = (deref h' c)\<lparr>alleles := (alleles (deref h' c))[i := v]\<rparr>"
        by (rule write_allele_self [OF cl])
    next
      fix vs show "deref (write_fitness h' c vs) c = (deref h' c)\<lparr>fitness := vs\<rparr>"
        by (rule write_fitness_self [OF ca])
    next
      fix b i v assume "b < length (genomes h')" "b \<noteq> c"
      from others [OF this] show "deref (write_allele h' c i v) b = deref h' b" by simp
    next
      fix b vs assume "b < length (genomes h')" "b \<noteq> c"
      from others [OF this] show "deref (write_fitness h' c vs) b = deref h' b" by simp
    next
      fix b i v assume "b < length (genomes h')" "b \<noteq> c"
      from others [OF this] show "deref (write_allele h' b i v) c = deref h' c" by simp
    next
      fix b vs assume "b < length (genomes h')" "b \<noteq> c"
      from others [OF this] show "deref (write_fitness h' b vs) c = deref h' c" by simp
    qed
  qed
  show ?thesis
  proof (intro conjI)
    show "length refs' = length refs" by (rule c1(1))
    show "distinct refs'" by (rule c1(2))
    show "map (deref h') refs' = map (deref h) refs" by (rule c2)
    show "\<forall>a<?n. deref h' a = deref h a \<and> a \<notin> set refs'" by (rule c3)
    show "\<forall>c\<in>set refs'.
             (\<forall>i v. deref (write_allele h' c i v) c
                      = (deref h' c)\<lparr>alleles := (alleles (deref h' c))[i := v]\<rparr>)
           \<and> (\<forall>vs. deref (write_fitness h' c vs) c = (deref h' c)\<lparr>fitness := vs\<rparr>)
           \<and> (\<forall>b<length (genomes h'). b \<noteq> c \<longrightarrow>
                 (\<forall>i v. deref (write_allele h' c i v) b = deref h' b)
               \<and> (\<forall>vs. deref (write_fitness h' c vs) b = deref h' b)
               \<and> (\<forall>i v. deref (write_allele h' b i v) c = deref h' c)
               \<and> (\<forall>vs. deref (write_fitness h' b vs) c = deref h' c))"
      using c4 by (rule ballI)
  qed
qed

theorem clone_independent_witness:
  "wf_store example_store
   \<and> clone_all example_store [0, 0] = ([2, 3], example_cloned)
   \<and> deref example_cloned 2 = \<lparr>alleles = [1, 0, 1], fitness = [2]\<rparr>
   \<and> deref example_cloned 3 = \<lparr>alleles = [1, 0, 1], fitness = [2]\<rparr>
   \<and> deref (write_fitness example_cloned 2 []) 2 = \<lparr>alleles = [1, 0, 1], fitness = []\<rparr>
   \<and> deref (write_fitness example_cloned 2 []) 3 = \<lparr>alleles = [1, 0, 1], fitness = [2]\<rparr>
   \<and> deref (write_fitness example_cloned 2 []) 0 = \<lparr>alleles = [1, 0, 1], fitness = [2]\<rparr>
   \<and> deref (write_allele example_cloned 2 1 1) 2 = \<lparr>alleles = [1, 1, 1], fitness = [2]\<rparr>
   \<and> deref (write_allele example_cloned 2 1 1) 0 = \<lparr>alleles = [1, 0, 1], fitness = [2]\<rparr>
   \<and> deref (write_allele example_cloned 0 1 1) 2 = \<lparr>alleles = [1, 0, 1], fitness = [2]\<rparr>"
proof -
  have w: "wf_store example_store"
    by (simp add: wf_store_def example_store_def)
  have b: "\<forall>a\<in>set [0, 0]. a < length (genomes example_store)"
    by (simp add: example_store_def)
  have c: "clone_all example_store [0, 0] = ([2, 3], example_cloned)"
    by (simp add: clone_ref_def example_store_def example_cloned_def)
  have d: "deref example_cloned 2 = \<lparr>alleles = [1, 0, 1], fitness = [2]\<rparr>"
    "deref example_cloned 3 = \<lparr>alleles = [1, 0, 1], fitness = [2]\<rparr>"
    "deref example_cloned 0 = \<lparr>alleles = [1, 0, 1], fitness = [2]\<rparr>"
    by (simp_all add: deref_def example_cloned_def)
  have l: "length (genomes example_cloned) = 4" by (simp add: example_cloned_def)
  show ?thesis
    using clone_independent [OF w b c] w c d l by simp
qed

end
